theory Spec2Isabelle
  imports Main "HOL-Library.Multiset"
begin

section \<open>Data model (models/Conversation.js, models/Message.js, models/User.js)\<close>

text \<open>
  A MongoDB ObjectId and its string form (\<open>toString()\<close>) are one type: the code compares
  ids only for equality. \<open>Date\<close> values are natural numbers (milliseconds); \<open>new Date()\<close> and
  \<open>Date.now\<close> are a parameter \<open>now\<close> of every operation that reads the clock.
\<close>

type_synonym oid = nat
type_synonym time = nat

datatype conversationType = Direct | Group

datatype messageType = TextMsg | ImageMsg | FileMsg | SystemMsg

datatype role = Patient | Doctor | Admin

text \<open>ConversationSchema. \<open>unreadCount\<close> is the Mongoose Map from user id to Number.\<close>

record Conversation =
  conv_id :: oid
  participants :: "oid list"
  lastMessage :: "oid option"
  lastMessageAt :: time
  unreadCount :: "oid \<rightharpoonup> nat"
  isActive :: bool
  conversationType :: conversationType

text \<open>MessageSchema. \<open>readBy\<close> and \<open>deliveredTo\<close> are arrays of (user, timestamp).\<close>

record Message =
  msg_id :: oid
  conversation :: oid
  sender :: oid
  content :: string
  messageType :: messageType
  readBy :: "(oid \<times> time) list"
  deliveredTo :: "(oid \<times> time) list"
  isDeleted :: bool
  createdAt :: time

record User =
  user_id :: oid
  role :: role

text \<open>The three collections. A collection is a list in natural (insertion) order.
  Failures of the database itself (unreachable, an id string that does not parse) are
  not modelled: every id is well-formed and every query is answered.\<close>

record db =
  conversations :: "Conversation list"
  messages :: "Message list"
  users :: "User list"

datatype error =
    BadRequest string
  | NotFound string
  | Forbidden string
  | ValidationError string
  | ServerError

section \<open>Store primitives\<close>

text \<open>\<open>updateOne\<close>: the first document matching the filter is updated, as \<open>findOne\<close> finds the first.\<close>

fun updateOne :: "('a \<Rightarrow> bool) \<Rightarrow> ('a \<Rightarrow> 'a) \<Rightarrow> 'a list \<Rightarrow> 'a list" where
  "updateOne P f [] = []"
| "updateOne P f (x # xs) = (if P x then f x # xs else x # updateOne P f xs)"

text \<open>A new ObjectId differs from every id of the collection.\<close>

definition newObjectId :: "oid list \<Rightarrow> oid" where
  "newObjectId used = Suc (fold max used 0)"

definition Conversation_findById :: "oid \<Rightarrow> db \<Rightarrow> Conversation option" where
  "Conversation_findById i d = find (\<lambda>c. conv_id c = i) (conversations d)"

definition Message_findById :: "oid \<Rightarrow> db \<Rightarrow> Message option" where
  "Message_findById i d = find (\<lambda>m. msg_id m = i) (messages d)"

definition User_findById :: "oid \<Rightarrow> db \<Rightarrow> User option" where
  "User_findById i d = find (\<lambda>u. user_id u = i) (users d)"

definition Conversation_findByIdAndUpdate ::
  "oid \<Rightarrow> (Conversation \<Rightarrow> Conversation) \<Rightarrow> db \<Rightarrow> db" where
  "Conversation_findByIdAndUpdate i f d =
     d\<lparr>conversations := updateOne (\<lambda>c. conv_id c = i) f (conversations d)\<rparr>"

section \<open>Message model (models/Message.js)\<close>

text \<open>\<open>MessageSchema.post('save')\<close>: runs after every save of a message document, the
  first one (create) and every later one (markAsRead, markAsDelivered).\<close>

definition Message_postSave :: "Message \<Rightarrow> db \<Rightarrow> db" where
  "Message_postSave doc d =
     Conversation_findByIdAndUpdate (conversation doc)
       (\<lambda>c. c\<lparr>lastMessage := Some (msg_id doc), lastMessageAt := createdAt doc\<rparr>) d"

text \<open>\<open>save()\<close> of a loaded message document whose only change is a push onto one of its
  arrays: the push is applied to the stored document of that id, then the hook runs.\<close>

definition Message_save :: "Message \<Rightarrow> (Message \<Rightarrow> Message) \<Rightarrow> db \<Rightarrow> db" where
  "Message_save doc pushed d =
     Message_postSave doc
       (d\<lparr>messages := updateOne (\<lambda>m. msg_id m = msg_id doc) pushed (messages d)\<rparr>)"

definition isReadBy :: "Message \<Rightarrow> oid \<Rightarrow> bool" where
  "isReadBy this userId = list_ex (\<lambda>read. fst read = userId) (readBy this)"

definition isDeliveredTo :: "Message \<Rightarrow> oid \<Rightarrow> bool" where
  "isDeliveredTo this userId = list_ex (\<lambda>delivery. fst delivery = userId) (deliveredTo this)"

text \<open>The methods return the document (\<open>this\<close>); the store they saved into is returned with it.\<close>

definition Message_markAsRead :: "oid \<Rightarrow> time \<Rightarrow> Message \<Rightarrow> db \<Rightarrow> Message \<times> db" where
  "Message_markAsRead userId now this d =
     (if \<not> isReadBy this userId then
        (this\<lparr>readBy := readBy this @ [(userId, now)]\<rparr>,
         Message_save this (\<lambda>m. m\<lparr>readBy := readBy m @ [(userId, now)]\<rparr>) d)
      else (this, d))"

definition Message_markAsDelivered :: "oid \<Rightarrow> time \<Rightarrow> Message \<Rightarrow> db \<Rightarrow> Message \<times> db" where
  "Message_markAsDelivered userId now this d =
     (if \<not> isDeliveredTo this userId then
        (this\<lparr>deliveredTo := deliveredTo this @ [(userId, now)]\<rparr>,
         Message_save this (\<lambda>m. m\<lparr>deliveredTo := deliveredTo m @ [(userId, now)]\<rparr>) d)
      else (this, d))"

text \<open>The \<open>trim\<close> setter of \<open>content\<close>: white space is removed at both ends.\<close>

definition isSpace :: "char \<Rightarrow> bool" where
  "isSpace c = (of_char c \<in> {9, 10, 11, 12, 13, 32 :: nat})"

definition trim :: "string \<Rightarrow> string" where
  "trim s = rev (dropWhile isSpace (rev (dropWhile isSpace s)))"

text \<open>\<open>Message.create\<close>: the schema's validation of \<open>content\<close> (required, at most 5000
  characters after trimming), the insert with the defaults of the schema, then the hook.\<close>

definition Message_create ::
  "oid \<Rightarrow> oid \<Rightarrow> string \<Rightarrow> messageType \<Rightarrow> time \<Rightarrow> db \<Rightarrow> error + (Message \<times> db)" where
  "Message_create conversationId senderId contentIn mtype now d =
     (if trim contentIn = [] then Inl (ValidationError ''Message content is required'')
      else if 5000 < length (trim contentIn)
        then Inl (ValidationError ''Message cannot exceed 5000 characters'')
      else
        (let doc = \<lparr>msg_id = newObjectId (map msg_id (messages d)),
                    conversation = conversationId, sender = senderId,
                    content = trim contentIn, messageType = mtype,
                    readBy = [], deliveredTo = [], isDeleted = False, createdAt = now\<rparr>
         in Inr (doc, Message_postSave doc (d\<lparr>messages := messages d @ [doc]\<rparr>))))"

section \<open>Conversation model (models/Conversation.js)\<close>

text \<open>\<open>save()\<close> of a loaded conversation whose one modified path is the entry of \<open>userId\<close>
  in \<open>unreadCount\<close>: that entry of the stored document is set to the document's value.
  Mongoose sends an update of the modified paths only, so the other stored fields (the
  last-message pointer among them) are not overwritten by the older values of the loaded
  document. Setting an entry to the value it already has leaves the store as it is, which
  the write of the same value also does wherever the document was just loaded.\<close>

definition Conversation_save :: "Conversation \<Rightarrow> oid \<Rightarrow> db \<Rightarrow> db" where
  "Conversation_save doc userId d =
     d\<lparr>conversations :=
          updateOne (\<lambda>c. conv_id c = conv_id doc)
            (\<lambda>c. c\<lparr>unreadCount := (unreadCount c)(userId := unreadCount doc userId)\<rparr>)
            (conversations d)\<rparr>"

definition incrementUnread :: "oid \<Rightarrow> Conversation \<Rightarrow> db \<Rightarrow> Conversation \<times> db" where
  "incrementUnread userId this d =
     (let currentCount = (case unreadCount this userId of None \<Rightarrow> 0 | Some n \<Rightarrow> n);
          this' = this\<lparr>unreadCount := (unreadCount this)(userId \<mapsto> currentCount + 1)\<rparr>
      in (this', Conversation_save this' userId d))"

definition resetUnread :: "oid \<Rightarrow> Conversation \<Rightarrow> db \<Rightarrow> Conversation \<times> db" where
  "resetUnread userId this d =
     (let this' = this\<lparr>unreadCount := (unreadCount this)(userId \<mapsto> 0)\<rparr>
      in (this', Conversation_save this' userId d))"

text \<open>\<open>findOne({participants: {$all: [userId1, userId2]}, conversationType: 'direct'})\<close>.\<close>

definition findBetweenUsers :: "oid \<Rightarrow> oid \<Rightarrow> db \<Rightarrow> Conversation option" where
  "findBetweenUsers userId1 userId2 d =
     find (\<lambda>c. userId1 \<in> set (participants c) \<and> userId2 \<in> set (participants c)
               \<and> conversationType c = Direct) (conversations d)"

text \<open>\<open>this.create({participants: [userId1, userId2], unreadCount: {...}})\<close> with the
  defaults of the schema for the other fields.\<close>

definition Conversation_create :: "oid \<Rightarrow> oid \<Rightarrow> time \<Rightarrow> db \<Rightarrow> Conversation \<times> db" where
  "Conversation_create userId1 userId2 now d =
     (let doc = \<lparr>conv_id = newObjectId (map conv_id (conversations d)),
                 participants = [userId1, userId2], lastMessage = None, lastMessageAt = now,
                 unreadCount = [userId1 \<mapsto> 0, userId2 \<mapsto> 0],
                 isActive = True, conversationType = Direct\<rparr>
      in (doc, d\<lparr>conversations := conversations d @ [doc]\<rparr>))"

definition findOrCreate :: "oid \<Rightarrow> oid \<Rightarrow> time \<Rightarrow> db \<Rightarrow> Conversation \<times> db" where
  "findOrCreate userId1 userId2 now d =
     (case findBetweenUsers userId1 userId2 d of
        None \<Rightarrow> Conversation_create userId1 userId2 now d
      | Some conv \<Rightarrow> (conv, d))"

subsection \<open>The two awaits of findOrCreate\<close>

text \<open>
  \<open>findOrCreate\<close> awaits the lookup and then the creation; between the two another caller
  may run. A caller is at one of three points: before the lookup, after it (holding its
  result), or resolved. A schedule names, step by step, which caller runs next.
\<close>

datatype caller = Pending | Looked "Conversation option" | Resolved Conversation

fun findOrCreate_step :: "oid \<Rightarrow> oid \<Rightarrow> time \<Rightarrow> caller \<Rightarrow> db \<Rightarrow> caller \<times> db" where
  "findOrCreate_step u1 u2 now Pending d = (Looked (findBetweenUsers u1 u2 d), d)"
| "findOrCreate_step u1 u2 now (Looked None) d =
     (case Conversation_create u1 u2 now d of (c, d') \<Rightarrow> (Resolved c, d'))"
| "findOrCreate_step u1 u2 now (Looked (Some c)) d = (Resolved c, d)"
| "findOrCreate_step u1 u2 now (Resolved c) d = (Resolved c, d)"

fun run_schedule :: "oid \<Rightarrow> oid \<Rightarrow> time \<Rightarrow> nat list \<Rightarrow> caller list \<times> db \<Rightarrow> caller list \<times> db" where
  "run_schedule u1 u2 now [] st = st"
| "run_schedule u1 u2 now (i # sched) (cs, d) =
     (if i < length cs
      then (case findOrCreate_step u1 u2 now (cs ! i) d of
              (c', d') \<Rightarrow> run_schedule u1 u2 now sched (cs[i := c'], d'))
      else run_schedule u1 u2 now sched (cs, d))"

text \<open>Invocations one after another: each runs to its end before the next starts.\<close>

fun findOrCreate_seq :: "oid \<Rightarrow> oid \<Rightarrow> time list \<Rightarrow> db \<Rightarrow> Conversation list \<times> db" where
  "findOrCreate_seq u1 u2 [] d = ([], d)"
| "findOrCreate_seq u1 u2 (now # nows) d =
     (case findOrCreate u1 u2 now d of
        (c, d') \<Rightarrow> (case findOrCreate_seq u1 u2 nows d' of (cs, d'') \<Rightarrow> (c # cs, d'')))"

section \<open>Chat controller (controllers/chatController.js)\<close>

text \<open>\<open>getConversation\<close>. \<open>populate('participants')\<close> keeps the participants that resolve
  to a user document; the check runs over the populated array.\<close>

definition getConversation :: "oid \<Rightarrow> oid \<Rightarrow> db \<Rightarrow> error + Conversation" where
  "getConversation reqUserId cid d =
     (case Conversation_findById cid d of
        None \<Rightarrow> Inl (NotFound ''Conversation not found'')
      | Some conv \<Rightarrow>
          if \<not> list_ex (\<lambda>p. p = reqUserId)
                 (filter (\<lambda>p. User_findById p d \<noteq> None) (participants conv))
          then Inl (Forbidden ''Not authorized to access this conversation'')
          else Inr conv)"

definition createConversation ::
  "oid \<Rightarrow> oid option \<Rightarrow> time \<Rightarrow> db \<Rightarrow> (error + Conversation) \<times> db" where
  "createConversation reqUserId participantId now d =
     (case participantId of
        None \<Rightarrow> (Inl (BadRequest ''Please provide participantId''), d)
      | Some pid \<Rightarrow>
          (case User_findById pid d of
             None \<Rightarrow> (Inl (NotFound ''User not found''), d)
           | Some participant \<Rightarrow>
               (case User_findById reqUserId d of
                  None \<Rightarrow> (Inl ServerError, d)
                | Some currentUser \<Rightarrow>
                    if role currentUser = Patient \<and> role participant = Patient
                    then (Inl (Forbidden ''Patients can only chat with doctors''), d)
                    else if role currentUser = Doctor \<and> role participant = Doctor
                    then (Inl (Forbidden ''Doctors can only chat with patients''), d)
                    else (case findOrCreate reqUserId pid now d of
                            (conv, d') \<Rightarrow> (Inr conv, d')))))"

text \<open>\<open>sort({createdAt: -1})\<close>: newest first.\<close>

fun insert_desc :: "Message \<Rightarrow> Message list \<Rightarrow> Message list" where
  "insert_desc m [] = [m]"
| "insert_desc m (x # xs) =
     (if createdAt x \<le> createdAt m then m # x # xs else x # insert_desc m xs)"

definition sort_createdAt_desc :: "Message list \<Rightarrow> Message list" where
  "sort_createdAt_desc xs = foldr insert_desc xs []"

text \<open>\<open>limit(n)\<close> of a query: a limit of 0 is no limit.\<close>

definition limit_query :: "nat \<Rightarrow> 'a list \<Rightarrow> 'a list" where
  "limit_query n xs = (if n = 0 then xs else take n xs)"

text \<open>\<open>getMessages\<close>: \<open>limitParam\<close> is the parsed \<open>limit\<close> of the query string (50 when
  absent), \<open>before\<close> the cursor message id when given.\<close>

definition getMessages :: "oid \<Rightarrow> oid \<Rightarrow> nat option \<Rightarrow> oid option \<Rightarrow> db \<Rightarrow> error + Message list" where
  "getMessages reqUserId cid limitParam before d =
     (case Conversation_findById cid d of
        None \<Rightarrow> Inl (NotFound ''Conversation not found'')
      | Some conv \<Rightarrow>
          if \<not> list_ex (\<lambda>p. p = reqUserId) (participants conv)
          then Inl (Forbidden ''Not authorized to access this conversation'')
          else
            (let limit = (case limitParam of None \<Rightarrow> 50 | Some l \<Rightarrow> l);
                 cursor = (case before of
                             None \<Rightarrow> None
                           | Some b \<Rightarrow> map_option createdAt (Message_findById b d));
                 query = (\<lambda>m. conversation m = cid \<and> \<not> isDeleted m
                              \<and> (case cursor of None \<Rightarrow> True | Some t \<Rightarrow> createdAt m < t));
                 found = limit_query limit (sort_createdAt_desc (filter query (messages d)))
             in Inr (rev found)))"

text \<open>\<open>markAsRead\<close> of the controller (PATCH /conversations/:id/read): returns the number
  of messages it marked.\<close>

definition markAsRead :: "oid \<Rightarrow> oid \<Rightarrow> time \<Rightarrow> db \<Rightarrow> (error + nat) \<times> db" where
  "markAsRead reqUserId cid now d =
     (case Conversation_findById cid d of
        None \<Rightarrow> (Inl (NotFound ''Conversation not found''), d)
      | Some conv \<Rightarrow>
          if \<not> list_ex (\<lambda>p. p = reqUserId) (participants conv)
          then (Inl (Forbidden ''Not authorized to access this conversation''), d)
          else
            (let unreadMessages =
                   filter (\<lambda>m. conversation m = cid \<and> sender m \<noteq> reqUserId
                              \<and> \<not> list_ex (\<lambda>r. fst r = reqUserId) (readBy m)) (messages d);
                 d1 = fold (\<lambda>message st. snd (Message_markAsRead reqUserId now message st))
                        unreadMessages d
             in (Inr (length unreadMessages), snd (resetUnread reqUserId conv d1))))"

section \<open>Socket handlers (utils/socketHandlers.js)\<close>

text \<open>
  A live connection is its socket id together with the identity the authentication
  middleware attached to it (\<open>socket.id\<close>, \<open>socket.user.id\<close>). The server state is the
  store, the \<open>onlineUsers\<close> map (user id to socket id), the connected sockets, the room
  memberships that Socket.IO keeps, and a log of every event delivered to a connection.
\<close>

type_synonym socket = "nat \<times> oid"

datatype room = UserRoom oid | ConversationRoom oid | SocketRoom nat

datatype event =
    error_event string
  | user_online oid
  | user_offline oid
  | new_message Message oid
  | message_sent "nat option" Message
  | message_delivered oid oid
  | message_read_receipt oid oid oid time
  | user_typing oid oid
  | user_stop_typing oid oid

record server =
  store :: db
  onlineUsers :: "oid \<rightharpoonup> nat"
  sockets :: "socket list"
  rooms :: "(socket \<times> room) list"
  outbox :: "(socket \<times> event) list"

subsection \<open>Socket.IO: rooms and emission\<close>

text \<open>An emission to a room reaches the connected sockets that are members of it.\<close>

definition members :: "room \<Rightarrow> server \<Rightarrow> socket list" where
  "members r s = filter (\<lambda>k. (k, r) \<in> set (rooms s)) (sockets s)"

definition deliver :: "socket list \<Rightarrow> event \<Rightarrow> server \<Rightarrow> server" where
  "deliver ks ev s = s\<lparr>outbox := outbox s @ map (\<lambda>k. (k, ev)) ks\<rparr>"

text \<open>\<open>io.to(room).emit\<close>, \<open>socket.emit\<close>, \<open>socket.to(room).emit\<close>, \<open>socket.broadcast.emit\<close>,
  \<open>socket.join\<close>.\<close>

definition io_to_emit :: "room \<Rightarrow> event \<Rightarrow> server \<Rightarrow> server" where
  "io_to_emit r ev s = deliver (members r s) ev s"

definition socket_emit :: "socket \<Rightarrow> event \<Rightarrow> server \<Rightarrow> server" where
  "socket_emit sock ev s = deliver [sock] ev s"

definition socket_to_emit :: "socket \<Rightarrow> room \<Rightarrow> event \<Rightarrow> server \<Rightarrow> server" where
  "socket_to_emit sock r ev s = deliver (filter (\<lambda>k. k \<noteq> sock) (members r s)) ev s"

definition socket_broadcast_emit :: "socket \<Rightarrow> event \<Rightarrow> server \<Rightarrow> server" where
  "socket_broadcast_emit sock ev s = deliver (filter (\<lambda>k. k \<noteq> sock) (sockets s)) ev s"

definition socket_join :: "socket \<Rightarrow> room \<Rightarrow> server \<Rightarrow> server" where
  "socket_join sock r s = s\<lparr>rooms := List.insert (sock, r) (rooms s)\<rparr>"

text \<open>What Socket.IO does itself when a connection opens (the socket is registered and
  joins the room named by its own id) and when it closes (the socket leaves every room
  and is removed), before the handlers of \<open>connection\<close> and \<open>disconnect\<close> run.\<close>

definition socketio_open :: "socket \<Rightarrow> server \<Rightarrow> server" where
  "socketio_open sock s =
     s\<lparr>sockets := sockets s @ [sock],
       rooms := List.insert (sock, SocketRoom (fst sock)) (rooms s)\<rparr>"

definition socketio_close :: "socket \<Rightarrow> server \<Rightarrow> server" where
  "socketio_close sock s =
     s\<lparr>sockets := removeAll sock (sockets s),
       rooms := filter (\<lambda>x. fst x \<noteq> sock) (rooms s)\<rparr>"

subsection \<open>The handlers\<close>

definition joinUserConversations :: "socket \<Rightarrow> oid \<Rightarrow> server \<Rightarrow> server" where
  "joinUserConversations sock userId s =
     fold (\<lambda>c. socket_join sock (ConversationRoom (conv_id c)))
       (filter (\<lambda>c. userId \<in> set (participants c) \<and> isActive c) (conversations (store s))) s"

definition on_connection :: "socket \<Rightarrow> server \<Rightarrow> server" where
  "on_connection sock s =
     (let userId = snd sock;
          s1 = s\<lparr>onlineUsers := (onlineUsers s)(userId \<mapsto> fst sock)\<rparr>;
          s2 = socket_broadcast_emit sock (user_online userId) s1;
          s3 = socket_join sock (UserRoom userId) s2
      in joinUserConversations sock userId s3)"

definition join_conversation :: "socket \<Rightarrow> oid \<Rightarrow> server \<Rightarrow> server" where
  "join_conversation sock conversationId s =
     (case Conversation_findById conversationId (store s) of
        None \<Rightarrow> socket_emit sock (error_event ''Conversation not found'') s
      | Some conv \<Rightarrow>
          if \<not> list_ex (\<lambda>p. p = snd sock) (participants conv)
          then socket_emit sock (error_event ''Not authorized'') s
          else socket_join sock (ConversationRoom conversationId) s)"

text \<open>The two loops of \<open>send_message\<close> over the other participants. The first works on the
  conversation document loaded at the start of the handler; the second on the created
  message document.\<close>

definition incrementUnread_all :: "oid list \<Rightarrow> Conversation \<times> db \<Rightarrow> Conversation \<times> db" where
  "incrementUnread_all ps st = fold (\<lambda>p (c, d). incrementUnread p c d) ps st"

definition deliver_step :: "oid \<Rightarrow> oid \<Rightarrow> time \<Rightarrow> Message \<times> server \<Rightarrow> Message \<times> server" where
  "deliver_step conversationId participantId now st =
     (case st of (message, s) \<Rightarrow>
        (case onlineUsers s participantId of
           None \<Rightarrow> (message, s)
         | Some participantSocketId \<Rightarrow>
             (case Message_markAsDelivered participantId now message (store s) of
                (message', d') \<Rightarrow>
                  (message',
                   io_to_emit (SocketRoom participantSocketId)
                     (message_delivered (msg_id message') conversationId)
                     (s\<lparr>store := d'\<rparr>)))))"

text \<open>\<open>send_message\<close>. The first component of the result is what the handler reported to
  the sender: the error it emitted, or the message it created.\<close>

definition send_message ::
  "socket \<Rightarrow> oid \<Rightarrow> string \<Rightarrow> messageType option \<Rightarrow> nat option \<Rightarrow> time \<Rightarrow> server
     \<Rightarrow> (error + Message) \<times> server" where
  "send_message sock conversationId contentIn mtype tempId now s =
     (let userId = snd sock in
      case Conversation_findById conversationId (store s) of
        None \<Rightarrow> (Inl (NotFound ''Conversation not found''),
                  socket_emit sock (error_event ''Conversation not found'') s)
      | Some conv \<Rightarrow>
          if \<not> list_ex (\<lambda>p. p = userId) (participants conv)
          then (Inl (Forbidden ''Not authorized''),
                socket_emit sock (error_event ''Not authorized'') s)
          else
            (case Message_create conversationId userId contentIn
                    (case mtype of None \<Rightarrow> TextMsg | Some ty \<Rightarrow> ty) now (store s) of
               Inl e \<Rightarrow> (Inl e, socket_emit sock (error_event ''Failed to send message'') s)
             | Inr (message, d1) \<Rightarrow>
                 (let otherParticipants = filter (\<lambda>p. p \<noteq> userId) (participants conv);
                      d2 = snd (incrementUnread_all otherParticipants (conv, d1));
                      s1 = io_to_emit (ConversationRoom conversationId)
                             (new_message message conversationId) (s\<lparr>store := d2\<rparr>);
                      s2 = socket_emit sock (message_sent tempId message) s1;
                      s3 = snd (fold (\<lambda>p. deliver_step conversationId p now)
                                  otherParticipants (message, s2))
                  in (Inr message, s3))))"

definition message_read :: "socket \<Rightarrow> oid \<Rightarrow> oid \<Rightarrow> time \<Rightarrow> server \<Rightarrow> server" where
  "message_read sock messageId conversationId now s =
     (case Message_findById messageId (store s) of
        None \<Rightarrow> s
      | Some message \<Rightarrow>
          (case Message_markAsRead (snd sock) now message (store s) of
             (message', d') \<Rightarrow>
               (case onlineUsers s (sender message') of
                  None \<Rightarrow> s\<lparr>store := d'\<rparr>
                | Some senderSocketId \<Rightarrow>
                    io_to_emit (SocketRoom senderSocketId)
                      (message_read_receipt messageId conversationId (snd sock) now)
                      (s\<lparr>store := d'\<rparr>))))"

definition typing_start :: "socket \<Rightarrow> oid \<Rightarrow> server \<Rightarrow> server" where
  "typing_start sock conversationId s =
     (case Conversation_findById conversationId (store s) of
        None \<Rightarrow> s
      | Some conv \<Rightarrow>
          if \<not> list_ex (\<lambda>p. p = snd sock) (participants conv) then s
          else socket_to_emit sock (ConversationRoom conversationId)
                 (user_typing conversationId (snd sock)) s)"

definition typing_stop :: "socket \<Rightarrow> oid \<Rightarrow> server \<Rightarrow> server" where
  "typing_stop sock conversationId s =
     socket_to_emit sock (ConversationRoom conversationId)
       (user_stop_typing conversationId (snd sock)) s"

definition on_disconnect :: "socket \<Rightarrow> server \<Rightarrow> server" where
  "on_disconnect sock s =
     (let userId = snd sock;
          s1 = s\<lparr>onlineUsers := (onlineUsers s)(userId := None)\<rparr>
      in socket_broadcast_emit sock (user_offline userId) s1)"

text \<open>The disconnect event of a connection: Socket.IO's own cleanup, then the handler.\<close>

definition disconnect :: "socket \<Rightarrow> server \<Rightarrow> server" where
  "disconnect sock s = on_disconnect sock (socketio_close sock s)"

definition connect :: "socket \<Rightarrow> server \<Rightarrow> server" where
  "connect sock s = on_connection sock (socketio_open sock s)"

text \<open>\<open>lookup\<close> of the presence registry (\<open>onlineUsers.get\<close>) and \<open>isUserOnline\<close>.\<close>

definition lookup :: "oid \<Rightarrow> server \<Rightarrow> nat option" where
  "lookup userId s = onlineUsers s userId"

definition isUserOnline :: "oid \<Rightarrow> server \<Rightarrow> bool" where
  "isUserOnline userId s = (onlineUsers s userId \<noteq> None)"

subsection \<open>The server as a transition system\<close>

text \<open>
  What can happen to the server: a connection opens (socket ids are unique among live
  connections), a connected socket sends one of its events or closes, or an
  authenticated HTTP request of the chat controller that writes to the store arrives.
  The handlers of a socket run only while it is connected. Each handler is one step: it
  runs to its end before the next event is handled (the interleaving of two invocations at
  their awaits is modelled for findOrCreate alone, above).
\<close>

datatype action =
    Connect socket
  | JoinConversation socket oid
  | SendMessage socket oid string "messageType option" "nat option" time
  | MessageRead socket oid oid time
  | TypingStart socket oid
  | TypingStop socket oid
  | Disconnect socket
  | HttpCreateConversation oid "oid option" time
  | HttpMarkAsRead oid oid time

fun step :: "action \<Rightarrow> server \<Rightarrow> server" where
  "step (Connect sock) s =
     (if fst sock \<in> fst ` set (sockets s) then s else connect sock s)"
| "step (JoinConversation sock c) s =
     (if sock \<in> set (sockets s) then join_conversation sock c s else s)"
| "step (SendMessage sock c txt ty tmp now) s =
     (if sock \<in> set (sockets s) then snd (send_message sock c txt ty tmp now s) else s)"
| "step (MessageRead sock m c now) s =
     (if sock \<in> set (sockets s) then message_read sock m c now s else s)"
| "step (TypingStart sock c) s =
     (if sock \<in> set (sockets s) then typing_start sock c s else s)"
| "step (TypingStop sock c) s =
     (if sock \<in> set (sockets s) then typing_stop sock c s else s)"
| "step (Disconnect sock) s =
     (if sock \<in> set (sockets s) then disconnect sock s else s)"
| "step (HttpCreateConversation u p now) s =
     s\<lparr>store := snd (createConversation u p now (store s))\<rparr>"
| "step (HttpMarkAsRead u c now) s =
     s\<lparr>store := snd (markAsRead u c now (store s))\<rparr>"

definition run :: "action list \<Rightarrow> server \<Rightarrow> server" where
  "run acts s = fold step acts s"

definition init_server :: "db \<Rightarrow> server" where
  "init_server d = \<lparr>store = d, onlineUsers = Map.empty, sockets = [], rooms = [], outbox = []\<rparr>"

section \<open>Notions of the specification\<close>

text \<open>A valid recipient of a message, in the specification's words: a participant of the
  message's conversation other than the sender. The code has no such predicate.\<close>

definition valid_recipient :: "db \<Rightarrow> Message \<Rightarrow> oid \<Rightarrow> bool" where
  "valid_recipient d m u =
     (case Conversation_findById (conversation m) d of
        None \<Rightarrow> False
      | Some c \<Rightarrow> u \<in> set (participants c) \<and> u \<noteq> sender m)"


text \<open>
  The events on one conversation that move its counters: a \<open>send_message\<close> event of a
  socket, and a mark-conversation-read request of a user (the one caller of
  \<open>resetUnread\<close>). A run of events stops with \<open>None\<close> at the first event that fails; it
  collects the messages the sends created, in order.
\<close>

datatype conv_event =
    Send socket string "messageType option" "nat option" time
  | Reset oid time

fun apply_event ::
  "oid \<Rightarrow> conv_event \<Rightarrow> Message list \<times> server \<Rightarrow> (Message list \<times> server) option" where
  "apply_event cid (Send sock txt ty tmp now) (ms, s) =
     (case send_message sock cid txt ty tmp now s of
        (Inr m, s') \<Rightarrow> Some (ms @ [m], s')
      | (Inl e, s') \<Rightarrow> None)"
| "apply_event cid (Reset u now) (ms, s) =
     (case markAsRead u cid now (store s) of
        (Inr n, d') \<Rightarrow> Some (ms, s\<lparr>store := d'\<rparr>)
      | (Inl e, d') \<Rightarrow> None)"

definition run_events ::
  "oid \<Rightarrow> conv_event list \<Rightarrow> server \<Rightarrow> (Message list \<times> server) option" where
  "run_events cid es s = fold (\<lambda>e st. Option.bind st (apply_event cid e)) es (Some ([], s))"








section \<open>Membership and frames\<close>

text \<open>The membership table of the store (each conversation's id and participants, in
  order), and \<open>isParticipant(conversationId, identity)\<close> read off it: some conversation of
  that id lists the identity.\<close>

definition membership :: "db \<Rightarrow> (oid \<times> oid list) list" where
  "membership d = map (\<lambda>c. (conv_id c, participants c)) (conversations d)"

definition participant_of :: "db \<Rightarrow> oid \<Rightarrow> oid \<Rightarrow> bool" where
  "participant_of d c u = list_ex (\<lambda>e. fst e = c \<and> u \<in> set (snd e)) (membership d)"

text \<open>
  A frame for the handlers that only write to the store and emit: from \<open>s\<close> to \<open>s'\<close> the
  sockets, rooms and presence map are unchanged, and the outbox grew by deliveries that
  went to connected sockets or to the acting socket, a \<open>new_message\<close> of a conversation
  only to members of its room.
\<close>

definition emits_only :: "socket \<Rightarrow> server \<Rightarrow> server \<Rightarrow> bool" where
  "emits_only sock s s' =
     (sockets s' = sockets s \<and> rooms s' = rooms s \<and> onlineUsers s' = onlineUsers s
      \<and> (\<exists>new. outbox s' = outbox s @ new
            \<and> (\<forall>e\<in>set new. fst e \<in> set (sockets s) \<or> fst e = sock)
            \<and> (\<forall>e\<in>set new. \<forall>m c. snd e = new_message m c
                  \<longrightarrow> (fst e, ConversationRoom c) \<in> set (rooms s))))"

text \<open>The events a connection has received.\<close>

definition received :: "socket \<Rightarrow> server \<Rightarrow> event list" where
  "received sock s = map snd (filter (\<lambda>e. fst e = sock) (outbox s))"

text \<open>The two authorization invariants of the server: every subscription to the room of
  a conversation, and every \<open>new_message\<close> delivered, belongs to a connection whose
  identity is a participant of that conversation.\<close>

definition rooms_authorized :: "server \<Rightarrow> bool" where
  "rooms_authorized s =
     (\<forall>x\<in>set (rooms s). \<forall>c. snd x = ConversationRoom c
        \<longrightarrow> participant_of (store s) c (snd (fst x)))"

definition inbox_authorized :: "server \<Rightarrow> bool" where
  "inbox_authorized s =
     (\<forall>e\<in>set (outbox s). \<forall>m c. snd e = new_message m c
        \<longrightarrow> participant_of (store s) c (snd (fst e)))"

section \<open>Concrete states\<close>

text \<open>Small stores and servers on which the theorems below are evaluated.\<close>

definition db_empty :: db where
  "db_empty = \<lparr>conversations = [], messages = [], users = []\<rparr>"

text \<open>A store whose one direct conversation between users 1 and 2 is deactivated.\<close>

definition db_inactive :: db where
  "db_inactive = \<lparr>conversations =
      [\<lparr>conv_id = 7, participants = [1, 2], lastMessage = None, lastMessageAt = 0,
        unreadCount = Map.empty, isActive = False, conversationType = Direct\<rparr>],
     messages = [], users = []\<rparr>"

text \<open>A store whose one conversation tagged direct has a third participant.\<close>

definition db_three :: db where
  "db_three = \<lparr>conversations =
      [\<lparr>conv_id = 7, participants = [1, 2, 3], lastMessage = None, lastMessageAt = 0,
        unreadCount = Map.empty, isActive = True, conversationType = Direct\<rparr>],
     messages = [], users = []\<rparr>"

text \<open>Users of each role.\<close>

definition db_roles :: db where
  "db_roles = \<lparr>conversations = [], messages = [],
     users = [\<lparr>user_id = 1, role = Patient\<rparr>, \<lparr>user_id = 2, role = Doctor\<rparr>,
              \<lparr>user_id = 3, role = Patient\<rparr>, \<lparr>user_id = 4, role = Admin\<rparr>,
              \<lparr>user_id = 5, role = Doctor\<rparr>]\<rparr>"

text \<open>A message with the given id, conversation, sender, creation time and deleted flag;
  a conversation of users 1 and 2 with five messages, one of them deleted, and a message
  of another conversation.\<close>

definition msg :: "oid \<Rightarrow> oid \<Rightarrow> oid \<Rightarrow> time \<Rightarrow> bool \<Rightarrow> Message" where
  "msg i c u t del = \<lparr>msg_id = i, conversation = c, sender = u, content = ''hello'',
     messageType = TextMsg, readBy = [], deliveredTo = [], isDeleted = del, createdAt = t\<rparr>"

definition db_history :: db where
  "db_history = \<lparr>conversations =
      [\<lparr>conv_id = 7, participants = [1, 2], lastMessage = Some 15, lastMessageAt = 50,
        unreadCount = [1 \<mapsto> 2, 2 \<mapsto> 3], isActive = True, conversationType = Direct\<rparr>],
     messages = [msg 11 7 1 10 False, msg 12 7 2 20 False, msg 13 7 1 30 True,
                 msg 14 7 2 40 False, msg 16 8 3 45 False, msg 15 7 1 50 False],
     users = []\<rparr>"

text \<open>Patient 1 and doctor 2 with their new conversation 7, both connected (sockets 10
  and 20) and subscribed to the room of the conversation; user 3 connected on socket 30.\<close>

definition db_chat :: db where
  "db_chat = \<lparr>conversations =
      [\<lparr>conv_id = 7, participants = [1, 2], lastMessage = None, lastMessageAt = 5,
        unreadCount = [1 \<mapsto> 0, 2 \<mapsto> 0], isActive = True, conversationType = Direct\<rparr>],
     messages = [],
     users = [\<lparr>user_id = 1, role = Patient\<rparr>, \<lparr>user_id = 2, role = Doctor\<rparr>,
              \<lparr>user_id = 3, role = Patient\<rparr>]\<rparr>"

definition srv_chat :: server where
  "srv_chat = \<lparr>store = db_chat, onlineUsers = [1 \<mapsto> 10, 2 \<mapsto> 20, 3 \<mapsto> 30],
     sockets = [(10, 1), (20, 2), (30, 3)],
     rooms = [((30, 3), UserRoom 3), ((30, 3), SocketRoom 30),
              ((20, 2), ConversationRoom 7), ((20, 2), UserRoom 2), ((20, 2), SocketRoom 20),
              ((10, 1), ConversationRoom 7), ((10, 1), UserRoom 1), ((10, 1), SocketRoom 10)],
     outbox = []\<rparr>"


text \<open>The three users connect; user 3, no participant of conversation 7, tries to join
  it and to send into it; then user 1 sends a message.\<close>

definition chat_actions :: "action list" where
  "chat_actions = [Connect (10, 1), Connect (20, 2), Connect (30, 3),
     JoinConversation (30, 3) 7, SendMessage (30, 3) 7 ''let me in'' None None 90,
     SendMessage (10, 1) 7 ''Hello'' None (Some 1) 100]"

definition srv_after :: server where
  "srv_after = run chat_actions (init_server db_chat)"

text \<open>What happens after a connection has closed: a send and a typing event of user 1,
  a new connection of user 3 and the end of its old one.\<close>

definition after_disconnect :: "action list" where
  "after_disconnect = [SendMessage (10, 1) 7 ''anyone?'' None None 200, TypingStart (10, 1) 7,
     Connect (40, 3), Disconnect (30, 3)]"

section \<open>Store lemmas\<close>

lemma fold_max_ge: "a \<le> fold max xs (a::nat)"
proof (induction xs arbitrary: a)
  case Nil
  show ?case by simp
next
  case (Cons x xs)
  have "a \<le> max x a" by simp
  also have "max x a \<le> fold max xs (max x a)" by (rule Cons.IH)
  finally show ?case by simp
qed

lemma fold_max_mem: "x \<in> set xs \<Longrightarrow> x \<le> fold max xs (a::nat)"
proof (induction xs arbitrary: a)
  case Nil
  then show ?case by simp
next
  case (Cons y ys)
  show ?case
  proof (cases "x = y")
    case True
    have "max y a \<le> fold max ys (max y a)" by (rule fold_max_ge)
    with True show ?thesis by simp
  next
    case False
    with Cons show ?thesis by simp
  qed
qed

lemma newObjectId_fresh: "newObjectId used \<notin> set used"
proof
  assume "newObjectId used \<in> set used"
  then have "newObjectId used \<le> fold max used 0" by (rule fold_max_mem)
  then show False by (simp add: newObjectId_def)
qed

lemma find_Some_props: "find P xs = Some x \<Longrightarrow> x \<in> set xs \<and> P x"
  by (induction xs) (auto split: if_splits)

lemma find_append_new:
  "find P xs = None \<Longrightarrow> P x \<Longrightarrow> find P (xs @ [x]) = Some x"
  by (induction xs) (auto split: if_splits)

lemma updateOne_compose:
  "(\<And>x. P x \<Longrightarrow> P (f x)) \<Longrightarrow> updateOne P g (updateOne P f xs) = updateOne P (\<lambda>x. g (f x)) xs"
  by (induction xs) auto

lemma updateOne_first:
  "find P xs = Some x \<Longrightarrow> f x = g x \<Longrightarrow> updateOne P f xs = updateOne P g xs"
  by (induction xs) (auto split: if_splits)

lemma updateOne_same: "find P xs = Some x \<Longrightarrow> f x = x \<Longrightarrow> updateOne P f xs = xs"
  by (induction xs) (auto split: if_splits)

lemma updateOne_none: "find P xs = None \<Longrightarrow> updateOne P f xs = xs"
  by (induction xs) (auto split: if_splits)

lemma find_updateOne:
  "find P xs = Some x \<Longrightarrow> P (f x) \<Longrightarrow> find P (updateOne P f xs) = Some (f x)"
  by (induction xs) (auto split: if_splits)

lemma map_updateOne: "(\<And>x. k (f x) = k x) \<Longrightarrow> map k (updateOne P f xs) = map k xs"
  by (induction xs) auto

lemma updateOne_distinct:
  "distinct (map k xs) \<Longrightarrow>
     updateOne (\<lambda>x. k x = i) f xs = map (\<lambda>x. if k x = i then f x else x) xs"
proof (induction xs)
  case Nil
  show ?case by simp
next
  case (Cons x xs)
  show ?case
  proof (cases "k x = i")
    case True
    with Cons.prems have "\<forall>y\<in>set xs. k y \<noteq> i" by (auto simp: image_iff)
    then have "map (\<lambda>x. if k x = i then f x else x) xs = xs"
      by (induction xs) auto
    with True show ?thesis by simp
  next
    case False
    with Cons show ?thesis by simp
  qed
qed

text \<open>Pushing onto the documents of a list of distinct ids, one update per id.\<close>

lemma fold_updateOne_distinct:
  assumes "distinct (map k xs)" and "distinct ids" and "\<And>x. k (f x) = k x"
  shows "fold (\<lambda>i. updateOne (\<lambda>x. k x = i) f) ids xs
           = map (\<lambda>x. if k x \<in> set ids then f x else x) xs"
  using assms(1,2)
proof (induction ids arbitrary: xs)
  case Nil
  show ?case by simp
next
  case (Cons i ids)
  let ?ys = "map (\<lambda>x. if k x = i then f x else x) xs"
  have k: "map k ?ys = map k xs" by (induction xs) (auto simp: assms(3))
  have "fold (\<lambda>i. updateOne (\<lambda>x. k x = i) f) (i # ids) xs
          = fold (\<lambda>i. updateOne (\<lambda>x. k x = i) f) ids ?ys"
    using Cons.prems(1) by (simp add: updateOne_distinct)
  also have "\<dots> = map (\<lambda>x. if k x \<in> set ids then f x else x) ?ys"
  proof (rule Cons.IH)
    show "distinct (map k ?ys)" using Cons.prems(1) by (simp only: k)
    show "distinct ids" using Cons.prems(2) by simp
  qed
  also have "\<dots> = map (\<lambda>x. if k x \<in> set (i # ids) then f x else x) xs"
    using Cons.prems(2) by (auto simp: assms(3))
  finally show ?case .
qed

section \<open>findOrCreate\<close>

lemma findBetweenUsers_None_iff:
  "findBetweenUsers A B d = None \<longleftrightarrow>
     \<not> (\<exists>c \<in> set (conversations d). A \<in> set (participants c) \<and> B \<in> set (participants c)
           \<and> conversationType c = Direct)"
  by (auto simp: findBetweenUsers_def find_None_iff)

text \<open>
  C1 (as stated) fails: the lookup of findOrCreate filters on the type tag and on the two
  identities being among the participants, and on nothing else. A deactivated direct
  conversation of users 1 and 2 is returned (and nothing is created), and so is a direct
  conversation whose participants are 1, 2 and 3.
\<close>

theorem C1_counterexample:
  "(1::nat) \<noteq> 2
   \<and> \<not> isActive (fst (findOrCreate 1 2 5 db_inactive))
   \<and> snd (findOrCreate 1 2 5 db_inactive) = db_inactive
   \<and> 3 \<in> set (participants (fst (findOrCreate 1 2 5 db_three)))
   \<and> snd (findOrCreate 1 2 5 db_three) = db_three"
  by (simp add: findOrCreate_def findBetweenUsers_def db_inactive_def db_three_def)

text \<open>
  C1 (amended). findOrCreate(A, B) returns a conversation only if it is a direct
  conversation whose participants include both A and B (the active flag is not consulted
  and further participants are not excluded). When the store holds such a conversation,
  the first one is returned and the store is unchanged. When it holds none, exactly one
  conversation is appended to the store, with a new id, participants [A, B], unread count
  0 for A and for B, active, direct and with no last message, and that one is returned.
\<close>

theorem C1_findOrCreate:
  "(case findBetweenUsers A B d of
      Some c \<Rightarrow>
        findOrCreate A B now d = (c, d) \<and> c \<in> set (conversations d)
        \<and> conversationType c = Direct \<and> A \<in> set (participants c) \<and> B \<in> set (participants c)
    | None \<Rightarrow>
        (\<exists>c. findOrCreate A B now d = (c, d\<lparr>conversations := conversations d @ [c]\<rparr>)
           \<and> conv_id c \<notin> conv_id ` set (conversations d)
           \<and> participants c = [A, B] \<and> unreadCount c A = Some 0 \<and> unreadCount c B = Some 0
           \<and> isActive c \<and> conversationType c = Direct \<and> lastMessage c = None))
   \<and> (findBetweenUsers A B d = None \<longleftrightarrow>
        \<not> (\<exists>c \<in> set (conversations d). conversationType c = Direct
              \<and> A \<in> set (participants c) \<and> B \<in> set (participants c)))"
proof (intro conjI)
  show "case findBetweenUsers A B d of
      Some c \<Rightarrow>
        findOrCreate A B now d = (c, d) \<and> c \<in> set (conversations d)
        \<and> conversationType c = Direct \<and> A \<in> set (participants c) \<and> B \<in> set (participants c)
    | None \<Rightarrow>
        (\<exists>c. findOrCreate A B now d = (c, d\<lparr>conversations := conversations d @ [c]\<rparr>)
           \<and> conv_id c \<notin> conv_id ` set (conversations d)
           \<and> participants c = [A, B] \<and> unreadCount c A = Some 0 \<and> unreadCount c B = Some 0
           \<and> isActive c \<and> conversationType c = Direct \<and> lastMessage c = None)"
  proof (cases "findBetweenUsers A B d")
    case None
    have "newObjectId (map conv_id (conversations d)) \<notin> set (map conv_id (conversations d))"
      by (rule newObjectId_fresh)
    with None show ?thesis
      by (simp add: findOrCreate_def Conversation_create_def Let_def)
  next
    case (Some c)
    then have "c \<in> set (conversations d) \<and> (A \<in> set (participants c)
        \<and> B \<in> set (participants c) \<and> conversationType c = Direct)"
      unfolding findBetweenUsers_def by (rule find_Some_props)
    with Some show ?thesis by (simp add: findOrCreate_def)
  qed
next
  show "findBetweenUsers A B d = None \<longleftrightarrow>
        \<not> (\<exists>c \<in> set (conversations d). conversationType c = Direct
              \<and> A \<in> set (participants c) \<and> B \<in> set (participants c))"
    by (auto simp: findBetweenUsers_None_iff)
qed

text \<open>On the empty store findOrCreate(1, 2) creates the conversation; on the store with
  the deactivated conversation it returns that one.\<close>

theorem C1_findOrCreate_witness:
  "unreadCount (fst (findOrCreate 1 2 5 db_empty)) 1 = Some 0
   \<and> unreadCount (fst (findOrCreate 1 2 5 db_empty)) 2 = Some 0
   \<and> conversations (snd (findOrCreate 1 2 5 db_empty)) = [fst (findOrCreate 1 2 5 db_empty)]
   \<and> fst (findOrCreate 1 2 5 db_inactive) \<in> set (conversations db_inactive)"
  using C1_findOrCreate [where A = 1 and B = 2 and d = db_empty and now = 5]
    C1_findOrCreate [where A = 1 and B = 2 and d = db_inactive and now = 5]
  by (auto simp: findBetweenUsers_def db_empty_def db_inactive_def)

section \<open>The role pairing rule of createConversation\<close>

text \<open>
  C10. When the caller and the target both resolve to users: if both are patients, or
  both are doctors, the request fails with Forbidden and the store is unchanged (nothing
  is looked up or created); for every other pairing of roles, any pairing with an admin
  included, the request succeeds with exactly what findOrCreate(caller, target) returns
  and leaves in the store.
\<close>

theorem C10_role_pairing:
  assumes "User_findById caller d = Some cu" and "User_findById target d = Some tu"
  shows "createConversation caller (Some target) now d =
     (if role cu = Patient \<and> role tu = Patient
        then (Inl (Forbidden ''Patients can only chat with doctors''), d)
      else if role cu = Doctor \<and> role tu = Doctor
        then (Inl (Forbidden ''Doctors can only chat with patients''), d)
      else (Inr (fst (findOrCreate caller target now d)), snd (findOrCreate caller target now d)))"
  using assms by (simp add: createConversation_def split: prod.splits)

text \<open>Patient with patient and doctor with doctor are refused; patient with doctor,
  admin with admin and admin with patient go on to findOrCreate.\<close>

theorem C10_role_pairing_witness:
  "createConversation 1 (Some 3) 9 db_roles
     = (Inl (Forbidden ''Patients can only chat with doctors''), db_roles)
   \<and> createConversation 2 (Some 5) 9 db_roles
     = (Inl (Forbidden ''Doctors can only chat with patients''), db_roles)
   \<and> createConversation 1 (Some 2) 9 db_roles
     = (Inr (fst (findOrCreate 1 2 9 db_roles)), snd (findOrCreate 1 2 9 db_roles))
   \<and> createConversation 4 (Some 4) 9 db_roles
     = (Inr (fst (findOrCreate 4 4 9 db_roles)), snd (findOrCreate 4 4 9 db_roles))
   \<and> createConversation 4 (Some 1) 9 db_roles
     = (Inr (fst (findOrCreate 4 1 9 db_roles)), snd (findOrCreate 4 1 9 db_roles))"
  using C10_role_pairing [where caller = 1 and target = 3 and d = db_roles and now = 9]
    C10_role_pairing [where caller = 2 and target = 5 and d = db_roles and now = 9]
    C10_role_pairing [where caller = 1 and target = 2 and d = db_roles and now = 9]
    C10_role_pairing [where caller = 4 and target = 4 and d = db_roles and now = 9]
    C10_role_pairing [where caller = 4 and target = 1 and d = db_roles and now = 9]
  by (simp add: User_findById_def db_roles_def)

section \<open>findOrCreate under interleaving\<close>

text \<open>The two steps of one caller, run without interruption, are findOrCreate.\<close>

lemma findOrCreate_two_steps:
  "(case findOrCreate_step u1 u2 now Pending d of (c1, d1) \<Rightarrow> findOrCreate_step u1 u2 now c1 d1)
     = (Resolved (fst (findOrCreate u1 u2 now d)), snd (findOrCreate u1 u2 now d))"
  by (cases "findBetweenUsers u1 u2 d") (simp_all add: findOrCreate_def split: prod.splits)

text \<open>
  C9 (as stated) fails: nothing in findOrCreate or in the schema (the index on
  participants is not unique) serialises the lookup and the creation. With no conversation
  between users 1 and 2, two callers whose lookups both run before either creation each
  create a conversation: the store ends with two, and the callers resolve to different ids.
\<close>

theorem C9_counterexample:
  "findBetweenUsers 1 2 db_empty = None
   \<and> length (conversations (snd (run_schedule 1 2 5 [0, 1, 0, 1] ([Pending, Pending], db_empty)))) = 2
   \<and> (\<exists>c1 c2. fst (run_schedule 1 2 5 [0, 1, 0, 1] ([Pending, Pending], db_empty))
                  = [Resolved c1, Resolved c2] \<and> conv_id c1 \<noteq> conv_id c2)"
  by (simp add: findBetweenUsers_def db_empty_def Conversation_create_def newObjectId_def Let_def)

lemma findOrCreate_seq_found:
  "findBetweenUsers A B d = Some c \<Longrightarrow> findOrCreate_seq A B nows d = (replicate (length nows) c, d)"
  by (induction nows) (simp_all add: findOrCreate_def)

text \<open>
  C9 (amended). For every pair (A, B) with no direct conversation containing both, N
  invocations (N > 0) of findOrCreate(A, B) that run one after another, each to its end
  before the next starts, create exactly one conversation in total, and all N resolve to
  that same conversation.
\<close>

theorem C9_sequential:
  assumes "findBetweenUsers A B d = None" and "nows \<noteq> []"
  shows "\<exists>c. findOrCreate_seq A B nows d
              = (replicate (length nows) c, d\<lparr>conversations := conversations d @ [c]\<rparr>)
            \<and> conv_id c \<notin> conv_id ` set (conversations d)"
proof -
  from assms(2) obtain now rest where nows: "nows = now # rest" by (cases nows) auto
  obtain c where c: "Conversation_create A B now d = (c, d\<lparr>conversations := conversations d @ [c]\<rparr>)"
    and pc: "participants c = [A, B]" and tc: "conversationType c = Direct"
    and idc: "conv_id c = newObjectId (map conv_id (conversations d))"
    by (simp add: Conversation_create_def Let_def)
  let ?d1 = "d\<lparr>conversations := conversations d @ [c]\<rparr>"
  have "findBetweenUsers A B ?d1 = Some c"
    using assms(1) pc tc unfolding findBetweenUsers_def by (simp add: find_append_new)
  then have rest: "findOrCreate_seq A B rest ?d1 = (replicate (length rest) c, ?d1)"
    by (rule findOrCreate_seq_found)
  have fresh: "conv_id c \<notin> conv_id ` set (conversations d)"
    using newObjectId_fresh [of "map conv_id (conversations d)"] idc by simp
  have "findOrCreate_seq A B nows d = (replicate (length nows) c, ?d1)"
    using assms(1) c rest nows by (simp add: findOrCreate_def)
  with fresh show ?thesis by blast
qed

theorem C9_sequential_witness:
  "\<exists>c. findOrCreate_seq 1 2 [5, 6, 7] db_empty = ([c, c, c], \<lparr>conversations = [c], messages = [], users = []\<rparr>)"
  using C9_sequential [where A = 1 and B = 2 and d = db_empty and nows = "[5, 6, 7]"]
  by (simp add: findBetweenUsers_def db_empty_def)

section \<open>Pagination of getMessages\<close>

lemma mset_insert_desc: "mset (insert_desc m xs) = add_mset m (mset xs)"
  by (induction xs) auto

lemma set_insert_desc: "set (insert_desc m xs) = insert m (set xs)"
  by (induction xs) auto

lemma sorted_insert_desc:
  "sorted_wrt (\<lambda>a b. createdAt b \<le> createdAt a) xs
   \<Longrightarrow> sorted_wrt (\<lambda>a b. createdAt b \<le> createdAt a) (insert_desc m xs)"
  by (induction xs) (auto simp: set_insert_desc)

lemma mset_sort_createdAt_desc: "mset (sort_createdAt_desc xs) = mset xs"
  unfolding sort_createdAt_desc_def by (induction xs) (auto simp: mset_insert_desc)

lemma sorted_sort_createdAt_desc:
  "sorted_wrt (\<lambda>a b. createdAt b \<le> createdAt a) (sort_createdAt_desc xs)"
  unfolding sort_createdAt_desc_def by (induction xs) (auto intro: sorted_insert_desc)

text \<open>The page of a query: the newest L of the matching messages, oldest first.\<close>

lemma page_properties:
  assumes "0 < L"
  shows "\<exists>older. mset (filter q ms)
             = mset (rev (limit_query L (sort_createdAt_desc (filter q ms)))) + mset older
           \<and> (\<forall>x\<in>set (rev (limit_query L (sort_createdAt_desc (filter q ms)))).
                 \<forall>y\<in>set older. createdAt y \<le> createdAt x)"
    and "length (rev (limit_query L (sort_createdAt_desc (filter q ms))))
           = min L (length (filter q ms))"
    and "sorted_wrt (\<lambda>a b. createdAt a \<le> createdAt b)
           (rev (limit_query L (sort_createdAt_desc (filter q ms))))"
    and "\<forall>m\<in>set (rev (limit_query L (sort_createdAt_desc (filter q ms)))). m \<in> set ms \<and> q m"
proof -
  let ?s = "sort_createdAt_desc (filter q ms)"
  let ?page = "rev (limit_query L ?s)"
  have page: "?page = rev (take L ?s)"
    using assms(1) by (simp add: limit_query_def)
  have sorted: "sorted_wrt (\<lambda>a b. createdAt b \<le> createdAt a) (take L ?s @ drop L ?s)"
    using sorted_sort_createdAt_desc [of "filter q ms"] by simp
  have "mset (take L ?s) + mset (drop L ?s) = mset ?s"
    by (metis append_take_drop_id mset_append)
  then have split: "mset (filter q ms) = mset ?page + mset (drop L ?s)"
    by (simp add: page mset_sort_createdAt_desc)
  have newer: "\<forall>x\<in>set ?page. \<forall>y\<in>set (drop L ?s). createdAt y \<le> createdAt x"
    using sorted unfolding sorted_wrt_append by (simp add: page)
  from split newer
  show "\<exists>older. mset (filter q ms) = mset ?page + mset older
           \<and> (\<forall>x\<in>set ?page. \<forall>y\<in>set older. createdAt y \<le> createdAt x)"
    by blast
  have "length ?s = length (filter q ms)"
    using mset_sort_createdAt_desc [of "filter q ms"] by (metis size_mset)
  then show "length ?page = min L (length (filter q ms))"
    by (simp add: page min.commute)
  have "sorted_wrt (\<lambda>a b. createdAt b \<le> createdAt a) (take L ?s)"
    using sorted unfolding sorted_wrt_append by blast
  then show "sorted_wrt (\<lambda>a b. createdAt a \<le> createdAt b) ?page"
    by (simp add: page sorted_wrt_rev)
  have "set (take L ?s) \<subseteq> set ?s" by (rule set_take_subset)
  moreover have "set ?s = set (filter q ms)"
    using mset_sort_createdAt_desc [of "filter q ms"] by (metis set_mset_mset)
  ultimately show "\<forall>m\<in>set ?page. m \<in> set ms \<and> q m"
    by (auto simp: page)
qed

text \<open>
  C3. For a conversation the requester is a participant of and a positive limit L:
  with a cursor that names a message M, getMessages returns at most L messages, each of
  the conversation, created strictly before M and not soft-deleted, in ascending order of
  creation time; with no cursor it returns the L most recent non-deleted messages of the
  conversation (all of them when there are fewer than L: every message left out is at
  most as recent as every message returned), in ascending order of creation time.
\<close>

theorem C3_listBefore:
  assumes "Conversation_findById cid d = Some conv" and "u \<in> set (participants conv)"
    and "0 < L"
  shows
    "(Message_findById b d = Some M \<longrightarrow>
        (\<exists>res. getMessages u cid (Some L) (Some b) d = Inr res
           \<and> length res \<le> L
           \<and> (\<forall>m\<in>set res. m \<in> set (messages d) \<and> conversation m = cid
                 \<and> createdAt m < createdAt M \<and> \<not> isDeleted m)
           \<and> sorted_wrt (\<lambda>x y. createdAt x \<le> createdAt y) res))
     \<and> (\<exists>res older. getMessages u cid (Some L) None d = Inr res
           \<and> mset (filter (\<lambda>m. conversation m = cid \<and> \<not> isDeleted m) (messages d))
               = mset res + mset older
           \<and> length res
               = min L (length (filter (\<lambda>m. conversation m = cid \<and> \<not> isDeleted m) (messages d)))
           \<and> (\<forall>x\<in>set res. \<forall>y\<in>set older. createdAt y \<le> createdAt x)
           \<and> sorted_wrt (\<lambda>x y. createdAt x \<le> createdAt y) res)"
proof (intro conjI impI)
  assume M: "Message_findById b d = Some M"
  let ?q = "\<lambda>m. conversation m = cid \<and> \<not> isDeleted m \<and> createdAt m < createdAt M"
  let ?res = "rev (limit_query L (sort_createdAt_desc (filter ?q (messages d))))"
  have res: "getMessages u cid (Some L) (Some b) d = Inr ?res"
    using assms(1,2) M by (simp add: getMessages_def list_ex_iff)
  have "length ?res \<le> L"
    using page_properties(2) [OF assms(3), of ?q "messages d"] by simp
  moreover have "\<forall>m\<in>set ?res. m \<in> set (messages d) \<and> conversation m = cid
                 \<and> createdAt m < createdAt M \<and> \<not> isDeleted m"
    using page_properties(4) [OF assms(3), of ?q "messages d"] by blast
  moreover have "sorted_wrt (\<lambda>x y. createdAt x \<le> createdAt y) ?res"
    by (rule page_properties(3) [OF assms(3)])
  ultimately show "\<exists>res. getMessages u cid (Some L) (Some b) d = Inr res
           \<and> length res \<le> L
           \<and> (\<forall>m\<in>set res. m \<in> set (messages d) \<and> conversation m = cid
                 \<and> createdAt m < createdAt M \<and> \<not> isDeleted m)
           \<and> sorted_wrt (\<lambda>x y. createdAt x \<le> createdAt y) res"
    using res by blast
next
  let ?q = "\<lambda>m. conversation m = cid \<and> \<not> isDeleted m"
  let ?res = "rev (limit_query L (sort_createdAt_desc (filter ?q (messages d))))"
  have res: "getMessages u cid (Some L) None d = Inr ?res"
    using assms(1,2) by (simp add: getMessages_def list_ex_iff)
  obtain older where "mset (filter ?q (messages d)) = mset ?res + mset older"
    and "\<forall>x\<in>set ?res. \<forall>y\<in>set older. createdAt y \<le> createdAt x"
    using page_properties(1) [OF assms(3), of ?q "messages d"] by blast
  moreover have "length ?res = min L (length (filter ?q (messages d)))"
    by (rule page_properties(2) [OF assms(3)])
  moreover have "sorted_wrt (\<lambda>x y. createdAt x \<le> createdAt y) ?res"
    by (rule page_properties(3) [OF assms(3)])
  ultimately show "\<exists>res older. getMessages u cid (Some L) None d = Inr res
           \<and> mset (filter ?q (messages d)) = mset res + mset older
           \<and> length res = min L (length (filter ?q (messages d)))
           \<and> (\<forall>x\<in>set res. \<forall>y\<in>set older. createdAt y \<le> createdAt x)
           \<and> sorted_wrt (\<lambda>x y. createdAt x \<le> createdAt y) res"
    using res by blast
qed

text \<open>A page of 2 before message 14, the newest page of 2, and the default limit.\<close>

theorem C3_listBefore_witness:
  "getMessages 1 7 (Some 2) (Some 14) db_history = Inr [msg 11 7 1 10 False, msg 12 7 2 20 False]
   \<and> getMessages 1 7 (Some 2) None db_history = Inr [msg 14 7 2 40 False, msg 15 7 1 50 False]
   \<and> getMessages 1 7 None None db_history
       = Inr [msg 11 7 1 10 False, msg 12 7 2 20 False, msg 14 7 2 40 False, msg 15 7 1 50 False]"
  using C3_listBefore [where cid = 7 and d = db_history and u = 1 and L = 2 and b = 14
      and M = "msg 14 7 2 40 False"]
  by (simp add: getMessages_def Conversation_findById_def Message_findById_def db_history_def
      msg_def limit_query_def sort_createdAt_desc_def)

section \<open>Mark conversation read\<close>

lemma markAsRead_unread_effect:
  assumes "\<not> isReadBy m u"
  shows "messages (snd (Message_markAsRead u now m d))
           = updateOne (\<lambda>x. msg_id x = msg_id m) (\<lambda>x. x\<lparr>readBy := readBy x @ [(u, now)]\<rparr>)
               (messages d)"
    and "conversations (snd (Message_markAsRead u now m d))
           = updateOne (\<lambda>c. conv_id c = conversation m)
               (\<lambda>c. c\<lparr>lastMessage := Some (msg_id m), lastMessageAt := createdAt m\<rparr>)
               (conversations d)"
    and "users (snd (Message_markAsRead u now m d)) = users d"
  using assms
  by (simp_all add: Message_markAsRead_def Message_save_def Message_postSave_def
      Conversation_findByIdAndUpdate_def)

lemma fold_markAsRead:
  assumes "\<forall>m\<in>set ums. \<not> isReadBy m u \<and> conversation m = cid"
    and "find (\<lambda>c. conv_id c = cid) (conversations d) = Some conv"
  shows "messages (fold (\<lambda>m st. snd (Message_markAsRead u now m st)) ums d)
           = fold (\<lambda>i. updateOne (\<lambda>x. msg_id x = i) (\<lambda>x. x\<lparr>readBy := readBy x @ [(u, now)]\<rparr>))
               (map msg_id ums) (messages d)
         \<and> users (fold (\<lambda>m st. snd (Message_markAsRead u now m st)) ums d) = users d
         \<and> (\<exists>lm lt. conversations (fold (\<lambda>m st. snd (Message_markAsRead u now m st)) ums d)
               = updateOne (\<lambda>c. conv_id c = cid)
                   (\<lambda>c. c\<lparr>lastMessage := lm, lastMessageAt := lt\<rparr>) (conversations d))"
  using assms(1)
proof (induction ums rule: rev_induct)
  case Nil
  have "updateOne (\<lambda>c. conv_id c = cid)
          (\<lambda>c. c\<lparr>lastMessage := lastMessage conv, lastMessageAt := lastMessageAt conv\<rparr>)
          (conversations d) = conversations d"
    using assms(2) by (rule updateOne_same) simp
  then show ?case by (auto intro: sym)
next
  case (snoc m ums)
  let ?F = "\<lambda>m st. snd (Message_markAsRead u now m st)"
  let ?dk = "fold ?F ums d"
  from snoc.prems have m: "\<not> isReadBy m u" "conversation m = cid" by auto
  from snoc have IH: "messages ?dk
           = fold (\<lambda>i. updateOne (\<lambda>x. msg_id x = i) (\<lambda>x. x\<lparr>readBy := readBy x @ [(u, now)]\<rparr>))
               (map msg_id ums) (messages d)"
      "users ?dk = users d"
    by auto
  from snoc obtain lm lt where conv: "conversations ?dk
      = updateOne (\<lambda>c. conv_id c = cid) (\<lambda>c. c\<lparr>lastMessage := lm, lastMessageAt := lt\<rparr>)
          (conversations d)"
    by auto
  have "conversations (fold ?F (ums @ [m]) d)
      = updateOne (\<lambda>c. conv_id c = cid)
          (\<lambda>c. c\<lparr>lastMessage := Some (msg_id m), lastMessageAt := createdAt m\<rparr>)
          (conversations ?dk)"
    using markAsRead_unread_effect(2) [OF m(1)] m(2) by simp
  also have "\<dots> = updateOne (\<lambda>c. conv_id c = cid)
          (\<lambda>c. c\<lparr>lastMessage := Some (msg_id m), lastMessageAt := createdAt m\<rparr>)
          (conversations d)"
    unfolding conv by (subst updateOne_compose) simp_all
  finally have "\<exists>lm lt. conversations (fold ?F (ums @ [m]) d)
      = updateOne (\<lambda>c. conv_id c = cid) (\<lambda>c. c\<lparr>lastMessage := lm, lastMessageAt := lt\<rparr>)
          (conversations d)"
    by blast
  moreover have "messages (fold ?F (ums @ [m]) d)
      = fold (\<lambda>i. updateOne (\<lambda>x. msg_id x = i) (\<lambda>x. x\<lparr>readBy := readBy x @ [(u, now)]\<rparr>))
               (map msg_id (ums @ [m])) (messages d)"
    using markAsRead_unread_effect(1) [OF m(1)] IH(1) by simp
  moreover have "users (fold ?F (ums @ [m]) d) = users d"
    using markAsRead_unread_effect(3) [OF m(1)] IH(2) by simp
  ultimately show ?case by blast
qed


lemma resetUnread_effect:
  "snd (resetUnread u conv d)
     = d\<lparr>conversations := updateOne (\<lambda>c. conv_id c = conv_id conv)
            (\<lambda>c. c\<lparr>unreadCount := (unreadCount c)(u \<mapsto> 0)\<rparr>) (conversations d)\<rparr>"
  by (simp add: resetUnread_def Conversation_save_def Let_def)

text \<open>Unfolding the operations of the store on a concrete state.\<close>

lemmas eval_defs = markAsRead_def Message_markAsRead_def Message_save_def Message_postSave_def
  Conversation_findByIdAndUpdate_def Conversation_findById_def Message_findById_def
  resetUnread_def Conversation_save_def isReadBy_def db_history_def msg_def Let_def

text \<open>
  C7 (as stated) fails. User 1 marks conversation 7 read. The request fetches only the
  unread messages that others sent, so message 15, sent by user 1 and without a read record
  of user 1, stays without one. And every message the request marks is saved, which runs
  the post-save hook of the message: the conversation's last-message pointer, which named
  message 15 (created at 50), ends on message 14 (created at 40), the last one marked.
\<close>

theorem C7_counterexample:
  "map_option conversation (Message_findById 15 db_history) = Some 7
   \<and> map_option (\<lambda>m. isReadBy m 1) (Message_findById 15 db_history) = Some False
   \<and> map_option (\<lambda>m. isReadBy m 1)
        (Message_findById 15 (snd (markAsRead 1 7 60 db_history))) = Some False
   \<and> map_option lastMessage (Conversation_findById 7 db_history) = Some (Some 15)
   \<and> map_option lastMessage (Conversation_findById 7 (snd (markAsRead 1 7 60 db_history)))
        = Some (Some 14)
   \<and> map_option lastMessageAt (Conversation_findById 7 db_history) = Some 50
   \<and> map_option lastMessageAt (Conversation_findById 7 (snd (markAsRead 1 7 60 db_history)))
        = Some 40"
  by (simp add: eval_defs)

text \<open>
  C7 (amended). Mark-conversation-read by a participant u on conversation C (message ids
  being unique in the store) marks every message of C that was sent by someone other than
  u and is not yet read by u as read by u, and leaves every other message as it is; it
  sets the unread counter of u on C to 0; and on C it changes nothing else but possibly
  the last-message pointer and timestamp, about which nothing is said here: the
  participants, the active flag, the type and every other participant's unread counter
  are unchanged, as is every other conversation and every user.
\<close>

theorem C7_markAsRead:
  assumes "Conversation_findById cid d = Some conv" and "u \<in> set (participants conv)"
    and "distinct (map msg_id (messages d))"
  shows "\<exists>lm lt. markAsRead u cid now d =
     (Inr (length (filter (\<lambda>m. conversation m = cid \<and> sender m \<noteq> u \<and> \<not> isReadBy m u)
                     (messages d))),
      d\<lparr>conversations :=
           updateOne (\<lambda>c. conv_id c = cid)
             (\<lambda>c. c\<lparr>lastMessage := lm, lastMessageAt := lt,
                     unreadCount := (unreadCount c)(u \<mapsto> 0)\<rparr>) (conversations d),
         messages :=
           map (\<lambda>m. if conversation m = cid \<and> sender m \<noteq> u \<and> \<not> isReadBy m u
                     then m\<lparr>readBy := readBy m @ [(u, now)]\<rparr> else m) (messages d)\<rparr>)"
proof -
  let ?Q = "\<lambda>m. conversation m = cid \<and> sender m \<noteq> u \<and> \<not> isReadBy m u"
  let ?push = "\<lambda>x. x\<lparr>readBy := readBy x @ [(u, now)]\<rparr>"
  let ?ums = "filter ?Q (messages d)"
  let ?d1 = "fold (\<lambda>m st. snd (Message_markAsRead u now m st)) ?ums d"
  have find: "find (\<lambda>c. conv_id c = cid) (conversations d) = Some conv"
    using assms(1) by (simp add: Conversation_findById_def)
  then have cid: "conv_id conv = cid" by (auto dest: find_Some_props)
  have run: "markAsRead u cid now d = (Inr (length ?ums), snd (resetUnread u conv ?d1))"
    using assms(1,2) by (simp add: markAsRead_def list_ex_iff isReadBy_def Let_def)
  have "\<forall>m\<in>set ?ums. \<not> isReadBy m u \<and> conversation m = cid" by simp
  from fold_markAsRead [OF this find]
  obtain lm lt where msgs: "messages ?d1
       = fold (\<lambda>i. updateOne (\<lambda>x. msg_id x = i) ?push) (map msg_id ?ums) (messages d)"
    and usrs: "users ?d1 = users d"
    and convs: "conversations ?d1
       = updateOne (\<lambda>c. conv_id c = cid) (\<lambda>c. c\<lparr>lastMessage := lm, lastMessageAt := lt\<rparr>)
           (conversations d)"
    by blast
  have "distinct (map msg_id ?ums)"
    using assms(3) by (rule distinct_map_filter)
  with assms(3) have "messages ?d1
       = map (\<lambda>x. if msg_id x \<in> set (map msg_id ?ums) then ?push x else x) (messages d)"
    unfolding msgs by (intro fold_updateOne_distinct) simp_all
  also have "\<dots> = map (\<lambda>m. if ?Q m then ?push m else m) (messages d)"
  proof (rule map_cong [OF refl])
    fix x assume x: "x \<in> set (messages d)"
    have "msg_id x \<in> set (map msg_id ?ums) \<longleftrightarrow> ?Q x"
    proof
      assume "msg_id x \<in> set (map msg_id ?ums)"
      then obtain y where y: "y \<in> set (messages d)" "?Q y" "msg_id y = msg_id x" by auto
      with x assms(3) have "y = x" by (auto simp: distinct_map dest: inj_onD)
      with y show "?Q x" by simp
    next
      assume "?Q x"
      with x show "msg_id x \<in> set (map msg_id ?ums)" by auto
    qed
    then show "(if msg_id x \<in> set (map msg_id ?ums) then ?push x else x)
        = (if ?Q x then ?push x else x)"
      by simp
  qed
  finally have msgs': "messages ?d1 = map (\<lambda>m. if ?Q m then ?push m else m) (messages d)" .
  have convs': "conversations (snd (resetUnread u conv ?d1))
      = updateOne (\<lambda>c. conv_id c = cid)
          (\<lambda>c. c\<lparr>lastMessage := lm, lastMessageAt := lt,
                  unreadCount := (unreadCount c)(u \<mapsto> 0)\<rparr>) (conversations d)"
    unfolding resetUnread_effect cid by (simp add: convs updateOne_compose)
  have final: "snd (resetUnread u conv ?d1)
      = d\<lparr>conversations :=
           updateOne (\<lambda>c. conv_id c = cid)
             (\<lambda>c. c\<lparr>lastMessage := lm, lastMessageAt := lt,
                     unreadCount := (unreadCount c)(u \<mapsto> 0)\<rparr>) (conversations d),
         messages := map (\<lambda>m. if ?Q m then ?push m else m) (messages d)\<rparr>"
  proof (rule db.equality)
    show "conversations (snd (resetUnread u conv ?d1)) = conversations (d\<lparr>conversations :=
           updateOne (\<lambda>c. conv_id c = cid)
             (\<lambda>c. c\<lparr>lastMessage := lm, lastMessageAt := lt,
                     unreadCount := (unreadCount c)(u \<mapsto> 0)\<rparr>) (conversations d),
         messages := map (\<lambda>m. if ?Q m then ?push m else m) (messages d)\<rparr>)"
      using convs' by simp
  qed (simp_all add: resetUnread_effect msgs' usrs)
  show ?thesis
    by (rule exI [of _ lm], rule exI [of _ lt]) (simp only: run final)
qed


text \<open>User 2 marks conversation 7 read: messages 11, 13 and 15 (sent by user 1) get the
  record, the counter of user 2 goes from 3 to 0 and the counter of user 1 stays 2.\<close>

theorem C7_markAsRead_witness:
  "fst (markAsRead 2 7 60 db_history) = Inr 3
   \<and> map readBy (messages (snd (markAsRead 2 7 60 db_history)))
        = [[(2, 60)], [], [(2, 60)], [], [], [(2, 60)]]
   \<and> map_option (\<lambda>c. (unreadCount c 1, unreadCount c 2, participants c, isActive c))
        (Conversation_findById 7 (snd (markAsRead 2 7 60 db_history)))
        = Some (Some 2, Some 0, [1, 2], True)"
  using C7_markAsRead [where cid = 7 and d = db_history and u = 2 and now = 60]
  by (simp add: eval_defs)

section \<open>Sequences of sends\<close>

subsection \<open>The effect of one send on the conversations\<close>








lemma store_deliver [simp]: "store (deliver ks ev s) = store s"
  by (simp add: deliver_def)

lemma store_io_to_emit [simp]: "store (io_to_emit r ev s) = store s"
  by (simp add: io_to_emit_def)

lemma store_socket_emit [simp]: "store (socket_emit k ev s) = store s"
  by (simp add: socket_emit_def)

lemma deliver_step_alt:
  "deliver_step cid p now (m, s) =
     (case onlineUsers s p of
        None \<Rightarrow> (m, s)
      | Some k \<Rightarrow>
          (fst (Message_markAsDelivered p now m (store s)),
           io_to_emit (SocketRoom k)
             (message_delivered (msg_id (fst (Message_markAsDelivered p now m (store s)))) cid)
             (s\<lparr>store := snd (Message_markAsDelivered p now m (store s))\<rparr>)))"
  by (simp add: deliver_step_def split: option.splits prod.splits)




lemma send_message_success:
  assumes "send_message sock cid txt ty tmp now s = (Inr m, s')"
  obtains conv d1 where "Conversation_findById cid (store s) = Some conv"
    and "snd sock \<in> set (participants conv)"
    and "Message_create cid (snd sock) txt (case ty of None \<Rightarrow> TextMsg | Some t \<Rightarrow> t) now (store s)
           = Inr (m, d1)"
    and "s' = snd (fold (\<lambda>p. deliver_step cid p now)
                    (filter (\<lambda>p. p \<noteq> snd sock) (participants conv))
                    (m, socket_emit sock (message_sent tmp m)
                          (io_to_emit (ConversationRoom cid) (new_message m cid)
                             (s\<lparr>store := snd (incrementUnread_all
                                   (filter (\<lambda>p. p \<noteq> snd sock) (participants conv)) (conv, d1))\<rparr>))))"
  using assms
  by (auto simp: send_message_def Let_def list_ex_iff
      split: option.splits if_splits sum.splits prod.splits)



subsection \<open>Runs of events\<close>












text \<open>The concrete server is the one reached when the three users connect.\<close>

lemma srv_chat_reachable:
  "(run [Connect (10, 1), Connect (20, 2), Connect (30, 3)] (init_server db_chat))\<lparr>outbox := []\<rparr>
     = srv_chat"
  by (simp add: run_def init_server_def db_chat_def srv_chat_def connect_def socketio_open_def
      on_connection_def socket_broadcast_emit_def deliver_def socket_join_def
      joinUserConversations_def Let_def)

lemmas send_defs = run_events_def send_message_def Message_create_def trim_def isSpace_def
  newObjectId_def incrementUnread_all_def incrementUnread_def deliver_step_def
  Message_markAsDelivered_def isDeliveredTo_def io_to_emit_def socket_emit_def members_def
  deliver_def


section \<open>Authorization of rooms and deliveries\<close>

subsection \<open>The membership table under the operations of the store\<close>

lemma membership_update:
  assumes "\<And>c. conv_id (f c) = conv_id c \<and> participants (f c) = participants c"
  shows "membership (d\<lparr>conversations := updateOne P f (conversations d)\<rparr>) = membership d"
  unfolding membership_def by (simp add: map_updateOne assms)

lemma membership_messages [simp]: "membership (d\<lparr>messages := ms\<rparr>) = membership d"
  by (simp add: membership_def)

lemma membership_postSave [simp]: "membership (Message_postSave doc d) = membership d"
  unfolding Message_postSave_def Conversation_findByIdAndUpdate_def
  by (rule membership_update) simp

lemma membership_Message_save [simp]: "membership (Message_save doc f d) = membership d"
  by (simp add: Message_save_def)

lemma membership_markAsRead [simp]:
  "membership (snd (Message_markAsRead u now m d)) = membership d"
  by (simp add: Message_markAsRead_def)

lemma membership_markAsDelivered [simp]:
  "membership (snd (Message_markAsDelivered u now m d)) = membership d"
  by (simp add: Message_markAsDelivered_def)

lemma membership_Message_create:
  "Message_create c u str ty now d = Inr (m, d1) \<Longrightarrow> membership d1 = membership d"
  by (auto simp: Message_create_def Let_def split: if_splits)

lemma membership_Conversation_save [simp]:
  "membership (Conversation_save doc u d) = membership d"
  unfolding Conversation_save_def by (rule membership_update) simp

lemma membership_incrementUnread [simp]:
  "membership (snd (incrementUnread u c d)) = membership d"
  by (simp add: incrementUnread_def Let_def)

lemma membership_incrementUnread_all [simp]:
  "membership (snd (incrementUnread_all ps (c, d))) = membership d"
proof (induction ps arbitrary: c d)
  case Nil
  show ?case by (simp add: incrementUnread_all_def)
next
  case (Cons p ps)
  obtain c1 d1 where st: "incrementUnread p c d = (c1, d1)" by (cases "incrementUnread p c d")
  then have "membership d1 = membership d"
    using membership_incrementUnread [of p c d] by simp
  with Cons.IH [of c1 d1] show ?case
    using st by (simp add: incrementUnread_all_def)
qed

lemma membership_resetUnread [simp]:
  "membership (snd (resetUnread u c d)) = membership d"
  by (simp add: resetUnread_def Let_def)

lemma membership_fold_markAsRead [simp]:
  "membership (fold (\<lambda>m st. snd (Message_markAsRead u now m st)) ms d) = membership d"
  by (induction ms arbitrary: d) simp_all

lemma membership_markAsRead_controller [simp]:
  "membership (snd (markAsRead u c now d)) = membership d"
  by (simp add: markAsRead_def Let_def split: option.splits)

lemma membership_findOrCreate:
  "membership (snd (findOrCreate a b now d)) = membership d
   \<or> membership (snd (findOrCreate a b now d))
        = membership d @ [(newObjectId (map conv_id (conversations d)), [a, b])]"
  by (simp add: findOrCreate_def Conversation_create_def membership_def Let_def
      split: option.splits)

lemma membership_createConversation:
  "membership (snd (createConversation u p now d)) = membership d
   \<or> (\<exists>q. membership (snd (createConversation u p now d))
        = membership d @ [(newObjectId (map conv_id (conversations d)), [u, q])])"
proof (cases p)
  case None
  then show ?thesis by (simp add: createConversation_def)
next
  case (Some q)
  show ?thesis
    using membership_findOrCreate [of u q now d] unfolding Some
    by (auto simp: createConversation_def split: option.splits prod.splits)
qed


subsection \<open>Handlers that only emit\<close>

lemma emits_only_refl: "emits_only sock s s"
  by (simp add: emits_only_def)

lemma emits_only_store: "emits_only sock s (s\<lparr>store := d\<rparr>)"
  by (simp add: emits_only_def)

lemma emits_only_trans:
  assumes "emits_only sock s s1" and "emits_only sock s1 s2"
  shows "emits_only sock s s2"
proof -
  from assms(1) obtain n1 where 1: "sockets s1 = sockets s" "rooms s1 = rooms s"
      "onlineUsers s1 = onlineUsers s" "outbox s1 = outbox s @ n1"
      "\<forall>e\<in>set n1. fst e \<in> set (sockets s) \<or> fst e = sock"
      "\<forall>e\<in>set n1. \<forall>m c. snd e = new_message m c \<longrightarrow> (fst e, ConversationRoom c) \<in> set (rooms s)"
    unfolding emits_only_def by blast
  from assms(2) obtain n2 where 2: "sockets s2 = sockets s1" "rooms s2 = rooms s1"
      "onlineUsers s2 = onlineUsers s1" "outbox s2 = outbox s1 @ n2"
      "\<forall>e\<in>set n2. fst e \<in> set (sockets s1) \<or> fst e = sock"
      "\<forall>e\<in>set n2. \<forall>m c. snd e = new_message m c \<longrightarrow> (fst e, ConversationRoom c) \<in> set (rooms s1)"
    unfolding emits_only_def by blast
  have "outbox s2 = outbox s @ (n1 @ n2)" using 1(4) 2(4) by simp
  moreover have "\<forall>e\<in>set (n1 @ n2). fst e \<in> set (sockets s) \<or> fst e = sock"
    using 1(1,5) 2(5) by auto
  moreover have "\<forall>e\<in>set (n1 @ n2). \<forall>m c. snd e = new_message m c
      \<longrightarrow> (fst e, ConversationRoom c) \<in> set (rooms s)"
    using 1(2,6) 2(6) by auto
  ultimately show ?thesis
    unfolding emits_only_def using 1(1,2,3) 2(1,2,3) by (intro conjI exI [of _ "n1 @ n2"]) simp_all
qed

lemma emits_only_deliver:
  assumes "set ks \<subseteq> set (sockets s) \<union> {sock}"
    and "\<And>m c. ev = new_message m c \<Longrightarrow> \<forall>k\<in>set ks. (k, ConversationRoom c) \<in> set (rooms s)"
  shows "emits_only sock s (deliver ks ev s)"
  unfolding emits_only_def deliver_def using assms
  by (intro conjI exI [of _ "map (\<lambda>k. (k, ev)) ks"]) auto

lemma members_connected: "set (members r s) \<subseteq> set (sockets s)"
  by (auto simp: members_def)

lemma members_in_room: "k \<in> set (members r s) \<Longrightarrow> (k, r) \<in> set (rooms s)"
  by (simp add: members_def)

lemma emits_only_io_to_emit:
  assumes "\<And>m c. ev = new_message m c \<Longrightarrow> r = ConversationRoom c"
  shows "emits_only sock s (io_to_emit r ev s)"
  unfolding io_to_emit_def
proof (rule emits_only_deliver)
  show "set (members r s) \<subseteq> set (sockets s) \<union> {sock}"
    using members_connected [of r s] by auto
  show "\<forall>k\<in>set (members r s). (k, ConversationRoom c) \<in> set (rooms s)" if "ev = new_message m c" for m c
    using assms [OF that] by (auto dest: members_in_room)
qed

lemma emits_only_socket_emit:
  assumes "\<And>m c. ev \<noteq> new_message m c"
  shows "emits_only sock s (socket_emit sock ev s)"
  unfolding socket_emit_def using assms by (intro emits_only_deliver) auto

lemma emits_only_socket_to_emit:
  assumes "\<And>m c. ev \<noteq> new_message m c"
  shows "emits_only sock s (socket_to_emit sock r ev s)"
  unfolding socket_to_emit_def using assms members_connected [of r s]
  by (intro emits_only_deliver) auto

lemma deliver_step_frame:
  "emits_only sock s (snd (deliver_step cid p now (m, s)))
   \<and> membership (store (snd (deliver_step cid p now (m, s)))) = membership (store s)"
proof (cases "onlineUsers s p")
  case None
  then show ?thesis by (simp add: deliver_step_alt emits_only_refl)
next
  case (Some k)
  let ?s1 = "s\<lparr>store := snd (Message_markAsDelivered p now m (store s))\<rparr>"
  have "emits_only sock s ?s1" by (rule emits_only_store)
  moreover have "emits_only sock ?s1 (io_to_emit (SocketRoom k)
      (message_delivered (msg_id (fst (Message_markAsDelivered p now m (store s)))) cid) ?s1)"
    by (rule emits_only_io_to_emit) simp
  ultimately show ?thesis
    using Some by (auto simp: deliver_step_alt intro: emits_only_trans)
qed

lemma deliver_loop_frame:
  "emits_only sock s (snd (fold (\<lambda>p. deliver_step cid p now) ps (m, s)))
   \<and> membership (store (snd (fold (\<lambda>p. deliver_step cid p now) ps (m, s)))) = membership (store s)"
proof (induction ps arbitrary: m s)
  case Nil
  show ?case by (simp add: emits_only_refl)
next
  case (Cons p ps)
  obtain m1 s1 where st: "deliver_step cid p now (m, s) = (m1, s1)"
    by (cases "deliver_step cid p now (m, s)")
  with deliver_step_frame [of sock s cid p now m]
  have "emits_only sock s s1" "membership (store s1) = membership (store s)" by simp_all
  with Cons.IH [of s1 m1] show ?case
    by (auto simp: st intro: emits_only_trans)
qed

lemma send_message_frame:
  "emits_only sock s (snd (send_message sock cid str ty tmp now s))
   \<and> membership (store (snd (send_message sock cid str ty tmp now s))) = membership (store s)"
proof (cases "send_message sock cid str ty tmp now s")
  case (Pair res s')
  show ?thesis
  proof (cases res)
    case (Inl e)
    with Pair have "s' = socket_emit sock (error_event ''Conversation not found'') s
        \<or> s' = socket_emit sock (error_event ''Not authorized'') s
        \<or> s' = socket_emit sock (error_event ''Failed to send message'') s"
      by (auto simp: send_message_def Let_def split: option.splits if_splits sum.splits prod.splits)
    then show ?thesis
      unfolding Pair by (auto intro: emits_only_socket_emit)
  next
    case (Inr m)
    from send_message_success [OF Pair [unfolded Inr]]
    obtain conv d1 where cr: "Message_create cid (snd sock) str
           (case ty of None \<Rightarrow> TextMsg | Some t \<Rightarrow> t) now (store s) = Inr (m, d1)"
      and s': "s' = snd (fold (\<lambda>p. deliver_step cid p now)
                    (filter (\<lambda>p. p \<noteq> snd sock) (participants conv))
                    (m, socket_emit sock (message_sent tmp m)
                          (io_to_emit (ConversationRoom cid) (new_message m cid)
                             (s\<lparr>store := snd (incrementUnread_all
                                   (filter (\<lambda>p. p \<noteq> snd sock) (participants conv)) (conv, d1))\<rparr>))))"
      by blast
    let ?s0 = "s\<lparr>store := snd (incrementUnread_all
                  (filter (\<lambda>p. p \<noteq> snd sock) (participants conv)) (conv, d1))\<rparr>"
    let ?s1 = "io_to_emit (ConversationRoom cid) (new_message m cid) ?s0"
    let ?s2 = "socket_emit sock (message_sent tmp m) ?s1"
    have "emits_only sock s ?s0" by (rule emits_only_store)
    moreover have "emits_only sock ?s0 ?s1" by (rule emits_only_io_to_emit) simp
    moreover have "emits_only sock ?s1 ?s2" by (rule emits_only_socket_emit) simp
    moreover have "emits_only sock ?s2 s'"
      unfolding s' using deliver_loop_frame by blast
    ultimately have "emits_only sock s s'" by (blast intro: emits_only_trans)
    moreover have "membership (store s') = membership (store ?s2)"
      unfolding s' using deliver_loop_frame by blast
    moreover have "membership (store ?s2) = membership (store s)"
      using membership_Message_create [OF cr] by simp
    ultimately show ?thesis unfolding Pair by simp
  qed
qed

lemma message_read_alt:
  "message_read sock mid cid now s =
     (case Message_findById mid (store s) of
        None \<Rightarrow> s
      | Some m \<Rightarrow>
          (case onlineUsers s (sender (fst (Message_markAsRead (snd sock) now m (store s)))) of
             None \<Rightarrow> s\<lparr>store := snd (Message_markAsRead (snd sock) now m (store s))\<rparr>
           | Some k \<Rightarrow>
               io_to_emit (SocketRoom k) (message_read_receipt mid cid (snd sock) now)
                 (s\<lparr>store := snd (Message_markAsRead (snd sock) now m (store s))\<rparr>)))"
  by (simp add: message_read_def split: option.splits prod.splits)

lemma message_read_frame:
  "emits_only sock s (message_read sock mid cid now s)
   \<and> membership (store (message_read sock mid cid now s)) = membership (store s)"
proof (cases "Message_findById mid (store s)")
  case None
  then show ?thesis by (simp add: message_read_alt emits_only_refl)
next
  case (Some m)
  let ?s1 = "s\<lparr>store := snd (Message_markAsRead (snd sock) now m (store s))\<rparr>"
  have 1: "emits_only sock s ?s1" by (rule emits_only_store)
  have 2: "emits_only sock ?s1 (io_to_emit (SocketRoom k)
      (message_read_receipt mid cid (snd sock) now) ?s1)" for k
    by (rule emits_only_io_to_emit) simp
  show ?thesis
    using Some 1 emits_only_trans [OF 1 2]
    by (simp add: message_read_alt split: option.splits)
qed

lemma typing_start_frame: "emits_only sock s (typing_start sock cid s)"
  by (auto simp: typing_start_def emits_only_refl split: option.splits
      intro: emits_only_socket_to_emit)

lemma typing_stop_frame: "emits_only sock s (typing_stop sock cid s)"
  by (auto simp: typing_stop_def intro: emits_only_socket_to_emit)

lemma store_typing_start [simp]: "store (typing_start sock cid s) = store s"
  by (simp add: typing_start_def socket_to_emit_def split: option.splits)

lemma store_typing_stop [simp]: "store (typing_stop sock cid s) = store s"
  by (simp add: typing_stop_def socket_to_emit_def)


subsection \<open>Joining, connecting, disconnecting\<close>

lemma participant_of_iff:
  "participant_of d c u \<longleftrightarrow> (\<exists>conv\<in>set (conversations d). conv_id conv = c \<and> u \<in> set (participants conv))"
  by (auto simp: participant_of_def membership_def list_ex_iff)

lemma participant_of_mono:
  "participant_of d c u \<Longrightarrow> membership d' = membership d @ ext \<Longrightarrow> participant_of d' c u"
  by (auto simp: participant_of_def list_ex_iff)

lemma participant_of_found:
  "Conversation_findById c d = Some conv \<Longrightarrow> u \<in> set (participants conv) \<Longrightarrow> participant_of d c u"
  unfolding participant_of_iff Conversation_findById_def by (auto dest: find_Some_props)

lemma join_conversation_cases:
  "join_conversation sock c s = socket_emit sock (error_event ''Conversation not found'') s
   \<or> join_conversation sock c s = socket_emit sock (error_event ''Not authorized'') s
   \<or> (join_conversation sock c s = socket_join sock (ConversationRoom c) s
        \<and> participant_of (store s) c (snd sock))"
  by (auto simp: join_conversation_def list_ex_iff split: option.splits
      intro: participant_of_found)

lemma fold_socket_join:
  "set (rooms (fold (\<lambda>c. socket_join sock (f c)) cs s)) = set (rooms s) \<union> (\<lambda>c. (sock, f c)) ` set cs
   \<and> sockets (fold (\<lambda>c. socket_join sock (f c)) cs s) = sockets s
   \<and> store (fold (\<lambda>c. socket_join sock (f c)) cs s) = store s
   \<and> onlineUsers (fold (\<lambda>c. socket_join sock (f c)) cs s) = onlineUsers s
   \<and> outbox (fold (\<lambda>c. socket_join sock (f c)) cs s) = outbox s"
proof (induction cs arbitrary: s)
  case Nil
  show ?case by simp
next
  case (Cons c cs)
  show ?case
    using Cons.IH [of "socket_join sock (f c) s"] by (auto simp: socket_join_def)
qed

lemma connect_effect:
  "sockets (connect sock s) = sockets s @ [sock]"
  "store (connect sock s) = store s"
  "onlineUsers (connect sock s) = (onlineUsers s)(snd sock \<mapsto> fst sock)"
  "outbox (connect sock s)
     = outbox s @ map (\<lambda>k. (k, user_online (snd sock))) (filter (\<lambda>k. k \<noteq> sock) (sockets s))"
  "set (rooms (connect sock s))
     = set (rooms s) \<union> {(sock, SocketRoom (fst sock)), (sock, UserRoom (snd sock))}
       \<union> (\<lambda>c. (sock, ConversationRoom (conv_id c)))
           ` {c \<in> set (conversations (store s)). snd sock \<in> set (participants c) \<and> isActive c}"
  unfolding connect_def on_connection_def joinUserConversations_def Let_def
  by (auto simp: fold_socket_join socket_join_def socket_broadcast_emit_def deliver_def
      socketio_open_def)

lemma disconnect_effect:
  "sockets (disconnect sock s) = removeAll sock (sockets s)"
  "store (disconnect sock s) = store s"
  "onlineUsers (disconnect sock s) = (onlineUsers s)(snd sock := None)"
  "outbox (disconnect sock s)
     = outbox s @ map (\<lambda>k. (k, user_offline (snd sock))) (removeAll sock (sockets s))"
  "rooms (disconnect sock s) = filter (\<lambda>x. fst x \<noteq> sock) (rooms s)"
  unfolding disconnect_def on_disconnect_def Let_def
  by (auto simp: socket_broadcast_emit_def deliver_def socketio_close_def filter_id_conv)


subsection \<open>The authorization invariants\<close>

lemma emits_only_authorized:
  assumes "emits_only sock s s'" and "membership (store s') = membership (store s)"
    and "rooms_authorized s" and "inbox_authorized s"
  shows "rooms_authorized s' \<and> inbox_authorized s'"
proof -
  from assms(1) obtain new where f: "rooms s' = rooms s" "outbox s' = outbox s @ new"
      "\<forall>e\<in>set new. \<forall>m c. snd e = new_message m c \<longrightarrow> (fst e, ConversationRoom c) \<in> set (rooms s)"
    unfolding emits_only_def by blast
  have p: "participant_of (store s') = participant_of (store s)"
    by (simp add: participant_of_def fun_eq_iff assms(2))
  have "rooms_authorized s'"
    using assms(3) by (simp add: rooms_authorized_def f(1) p)
  moreover have "inbox_authorized s'"
    unfolding inbox_authorized_def f(2) p
  proof (intro ballI allI impI)
    fix e m c assume e: "e \<in> set (outbox s @ new)" "snd e = new_message m c"
    show "participant_of (store s) c (snd (fst e))"
    proof (cases "e \<in> set (outbox s)")
      case True
      with assms(4) e(2) show ?thesis by (auto simp: inbox_authorized_def)
    next
      case False
      with e f(3) have "(fst e, ConversationRoom c) \<in> set (rooms s)" by auto
      with assms(3) show ?thesis by (auto simp: rooms_authorized_def)
    qed
  qed
  ultimately show ?thesis by blast
qed

lemma store_grows_authorized:
  assumes "membership d' = membership (store s) @ ext"
    and "rooms_authorized s" and "inbox_authorized s"
  shows "rooms_authorized (s\<lparr>store := d'\<rparr>) \<and> inbox_authorized (s\<lparr>store := d'\<rparr>)"
proof -
  have mono: "participant_of d' c u" if "participant_of (store s) c u" for c u
    using that assms(1) by (rule participant_of_mono)
  have "rooms_authorized (s\<lparr>store := d'\<rparr>)"
    using assms(2) by (simp add: rooms_authorized_def) (blast intro: mono)
  moreover have "inbox_authorized (s\<lparr>store := d'\<rparr>)"
    using assms(3) by (simp add: inbox_authorized_def) (blast intro: mono)
  ultimately show ?thesis by blast
qed

lemma not_new_message_authorized:
  assumes "store s' = store s" and "set (rooms s') \<subseteq> set (rooms s)"
    and "outbox s' = outbox s @ map (\<lambda>k. (k, ev)) ks" and "\<And>m c. ev \<noteq> new_message m c"
    and "rooms_authorized s" and "inbox_authorized s"
  shows "rooms_authorized s' \<and> inbox_authorized s'"
  using assms by (auto simp: rooms_authorized_def inbox_authorized_def)

lemma join_conversation_authorized:
  assumes "rooms_authorized s" and "inbox_authorized s"
  shows "rooms_authorized (join_conversation sock c s) \<and> inbox_authorized (join_conversation sock c s)"
proof -
  have err: "rooms_authorized (socket_emit sock (error_event msg) s)
      \<and> inbox_authorized (socket_emit sock (error_event msg) s)" for msg
    using assms
    by (intro not_new_message_authorized [where ev = "error_event msg" and ks = "[sock]"])
      (simp_all add: socket_emit_def deliver_def)
  have "rooms_authorized (socket_join sock (ConversationRoom c) s)
      \<and> inbox_authorized (socket_join sock (ConversationRoom c) s)"
    if "participant_of (store s) c (snd sock)"
    using assms that by (auto simp: rooms_authorized_def inbox_authorized_def socket_join_def)
  with err join_conversation_cases [of sock c s] show ?thesis by auto
qed

lemma connect_authorized:
  assumes "rooms_authorized s" and "inbox_authorized s"
  shows "rooms_authorized (connect sock s) \<and> inbox_authorized (connect sock s)"
  using assms unfolding rooms_authorized_def inbox_authorized_def connect_effect
  by (auto simp: participant_of_iff)

lemma disconnect_authorized:
  assumes "rooms_authorized s" and "inbox_authorized s"
  shows "rooms_authorized (disconnect sock s) \<and> inbox_authorized (disconnect sock s)"
  using assms unfolding rooms_authorized_def inbox_authorized_def disconnect_effect
  by auto

lemma step_membership: "\<exists>ext. membership (store (step a s)) = membership (store s) @ ext"
proof (cases a)
  case (Connect sock)
  then show ?thesis by (simp add: connect_effect)
next
  case (JoinConversation sock c)
  then show ?thesis
    using join_conversation_cases [of sock c s] by (auto simp: socket_join_def)
next
  case (SendMessage sock c str ty tmp now)
  then show ?thesis using send_message_frame [of sock s c str ty tmp now] by simp
next
  case (MessageRead sock m c now)
  then show ?thesis using message_read_frame [of sock s m c now] by simp
next
  case (TypingStart sock c)
  then show ?thesis by simp
next
  case (TypingStop sock c)
  then show ?thesis by simp
next
  case (Disconnect sock)
  then show ?thesis by (simp add: disconnect_effect)
next
  case (HttpCreateConversation u p now)
  then show ?thesis using membership_createConversation [of u p now "store s"] by auto
next
  case (HttpMarkAsRead u c now)
  then show ?thesis by simp
qed

lemma step_authorized:
  assumes "rooms_authorized s" and "inbox_authorized s"
  shows "rooms_authorized (step a s) \<and> inbox_authorized (step a s)"
proof (cases a)
  case (Connect sock)
  then show ?thesis using assms connect_authorized by simp
next
  case (JoinConversation sock c)
  then show ?thesis using assms join_conversation_authorized by simp
next
  case (SendMessage sock c str ty tmp now)
  then show ?thesis
    using assms send_message_frame [of sock s c str ty tmp now]
    by (auto dest: emits_only_authorized)
next
  case (MessageRead sock m c now)
  then show ?thesis
    using assms message_read_frame [of sock s m c now]
    by (auto dest: emits_only_authorized)
next
  case (TypingStart sock c)
  then show ?thesis
    using assms emits_only_authorized [OF typing_start_frame [of sock s c]] by simp
next
  case (TypingStop sock c)
  then show ?thesis
    using assms emits_only_authorized [OF typing_stop_frame [of sock s c]] by simp
next
  case (Disconnect sock)
  then show ?thesis using assms disconnect_authorized by simp
next
  case (HttpCreateConversation u p now)
  from step_membership [of a s] obtain ext
    where "membership (snd (createConversation u p now (store s))) = membership (store s) @ ext"
    unfolding HttpCreateConversation by auto
  from store_grows_authorized [OF this assms] show ?thesis
    unfolding HttpCreateConversation by simp
next
  case (HttpMarkAsRead u c now)
  have "membership (snd (markAsRead u c now (store s))) = membership (store s) @ []" by simp
  from store_grows_authorized [OF this assms] show ?thesis
    unfolding HttpMarkAsRead by simp
qed

lemma run_authorized:
  "rooms_authorized s \<Longrightarrow> inbox_authorized s
   \<Longrightarrow> rooms_authorized (run acts s) \<and> inbox_authorized (run acts s)"
proof (induction acts arbitrary: s)
  case Nil
  then show ?case by (simp add: run_def)
next
  case (Cons a acts)
  from step_authorized [OF Cons.prems]
  have "rooms_authorized (step a s)" "inbox_authorized (step a s)" by simp_all
  from Cons.IH [OF this] show ?case by (simp add: run_def)
qed

lemma init_authorized: "rooms_authorized (init_server d) \<and> inbox_authorized (init_server d)"
  by (simp add: rooms_authorized_def inbox_authorized_def init_server_def)


lemma step_membership_new:
  "membership (store (step a s)) = membership (store s)
   \<or> (\<exists>ps. membership (store (step a s))
         = membership (store s) @ [(newObjectId (map conv_id (conversations (store s))), ps)])"
proof (cases a)
  case (Connect sock)
  then show ?thesis by (simp add: connect_effect)
next
  case (JoinConversation sock c)
  then show ?thesis
    using join_conversation_cases [of sock c s] by (auto simp: socket_join_def)
next
  case (SendMessage sock c str ty tmp now)
  then show ?thesis using send_message_frame [of sock s c str ty tmp now] by simp
next
  case (MessageRead sock m c now)
  then show ?thesis using message_read_frame [of sock s m c now] by simp
next
  case (TypingStart sock c)
  then show ?thesis by simp
next
  case (TypingStop sock c)
  then show ?thesis by simp
next
  case (Disconnect sock)
  then show ?thesis by (simp add: disconnect_effect)
next
  case (HttpCreateConversation u p now)
  then show ?thesis using membership_createConversation [of u p now "store s"] by auto
next
  case (HttpMarkAsRead u c now)
  then show ?thesis by simp
qed

lemma step_distinct_ids:
  assumes "distinct (map fst (membership (store s)))"
  shows "distinct (map fst (membership (store (step a s))))"
proof -
  have ids: "map fst (membership (store s)) = map conv_id (conversations (store s))"
    by (simp add: membership_def comp_def)
  from step_membership_new [of a s] show ?thesis
  proof
    assume "membership (store (step a s)) = membership (store s)"
    with assms show ?thesis by simp
  next
    assume "\<exists>ps. membership (store (step a s))
         = membership (store s) @ [(newObjectId (map conv_id (conversations (store s))), ps)]"
    then show ?thesis
      using assms newObjectId_fresh [of "map conv_id (conversations (store s))"]
      by (auto simp: ids)
  qed
qed

lemma run_distinct_ids:
  "distinct (map fst (membership (store s))) \<Longrightarrow> distinct (map fst (membership (store (run acts s))))"
proof (induction acts arbitrary: s)
  case Nil
  then show ?case by (simp add: run_def)
next
  case (Cons a acts)
  from Cons.IH [OF step_distinct_ids [OF Cons.prems]] show ?case by (simp add: run_def)
qed

lemma participant_of_unique:
  assumes "distinct (map fst (membership d))" and "Conversation_findById c d = Some conv"
  shows "participant_of d c u \<longleftrightarrow> u \<in> set (participants conv)"
proof
  assume "participant_of d c u"
  then obtain x where x: "x \<in> set (conversations d)" "conv_id x = c" "u \<in> set (participants x)"
    by (auto simp: participant_of_iff)
  from assms(2) have conv: "conv \<in> set (conversations d)" "conv_id conv = c"
    by (auto simp: Conversation_findById_def dest: find_Some_props)
  have "inj_on conv_id (set (conversations d))"
    using assms(1) by (simp add: membership_def comp_def distinct_map)
  with x conv have "x = conv" by (auto dest: inj_onD)
  with x show "u \<in> set (participants conv)" by simp
next
  assume "u \<in> set (participants conv)"
  with assms(2) show "participant_of d c u" by (rule participant_of_found)
qed

subsection \<open>An identity outside the conversation\<close>

text \<open>
  C6. Let C be a conversation of the store and u an identity that is not among its
  participants. A join_conversation and a send_message of a connection of u against C each
  emit the error event Not authorized to that connection and change nothing else: the rooms,
  the store (so the messages and the unread counters) and the presence map are as before.
  The request for the conversation over HTTP is answered 403. And in every state the
  server reaches from a store with unique conversation ids, no connection of u has received
  a new_message of C or is subscribed to the room of C.
\<close>

theorem C6_non_participant:
  assumes "Conversation_findById c (store s) = Some conv"
    and "snd sock \<notin> set (participants conv)"
  shows "join_conversation sock c s
           = s\<lparr>outbox := outbox s @ [(sock, error_event ''Not authorized'')]\<rparr>
     \<and> send_message sock c str ty tmp now s
           = (Inl (Forbidden ''Not authorized''),
              s\<lparr>outbox := outbox s @ [(sock, error_event ''Not authorized'')]\<rparr>)
     \<and> getConversation (snd sock) c (store s)
           = Inl (Forbidden ''Not authorized to access this conversation'')
     \<and> (\<forall>d0 acts. distinct (map conv_id (conversations d0)) \<and> s = run acts (init_server d0)
          \<longrightarrow> (\<forall>k m. ((k, snd sock), new_message m c) \<notin> set (outbox s))
              \<and> (\<forall>k. ((k, snd sock), ConversationRoom c) \<notin> set (rooms s)))"
proof (intro conjI)
  show "join_conversation sock c s
           = s\<lparr>outbox := outbox s @ [(sock, error_event ''Not authorized'')]\<rparr>"
    using assms by (simp add: join_conversation_def list_ex_iff socket_emit_def deliver_def)
  show "send_message sock c str ty tmp now s
           = (Inl (Forbidden ''Not authorized''),
              s\<lparr>outbox := outbox s @ [(sock, error_event ''Not authorized'')]\<rparr>)"
    using assms by (simp add: send_message_def list_ex_iff socket_emit_def deliver_def)
  show "getConversation (snd sock) c (store s)
           = Inl (Forbidden ''Not authorized to access this conversation'')"
    using assms by (auto simp: getConversation_def list_ex_iff)
  show "\<forall>d0 acts. distinct (map conv_id (conversations d0)) \<and> s = run acts (init_server d0)
          \<longrightarrow> (\<forall>k m. ((k, snd sock), new_message m c) \<notin> set (outbox s))
              \<and> (\<forall>k. ((k, snd sock), ConversationRoom c) \<notin> set (rooms s))"
  proof (intro allI impI)
    fix d0 acts
    assume reach: "distinct (map conv_id (conversations d0)) \<and> s = run acts (init_server d0)"
    then have "distinct (map fst (membership (store (init_server d0))))"
      by (simp add: membership_def comp_def init_server_def)
    then have "distinct (map fst (membership (store s)))"
      using reach run_distinct_ids by blast
    from participant_of_unique [OF this assms(1)] assms(2)
    have no: "\<not> participant_of (store s) c (snd sock)" by simp
    from run_authorized [of "init_server d0" acts] init_authorized [of d0] reach
    have inv: "rooms_authorized s" "inbox_authorized s" by simp_all
    have "\<forall>k m. ((k, snd sock), new_message m c) \<notin> set (outbox s)"
      using inv(2) no by (force simp: inbox_authorized_def)
    moreover have "\<forall>k. ((k, snd sock), ConversationRoom c) \<notin> set (rooms s)"
      using inv(1) no by (force simp: rooms_authorized_def)
    ultimately show "(\<forall>k m. ((k, snd sock), new_message m c) \<notin> set (outbox s))
              \<and> (\<forall>k. ((k, snd sock), ConversationRoom c) \<notin> set (rooms s))"
      by blast
  qed
qed


lemmas socket_defs = run_def init_server_def connect_def socketio_open_def on_connection_def
  socket_broadcast_emit_def socket_join_def joinUserConversations_def join_conversation_def
  socket_emit_def

text \<open>User 3 against conversation 7 of users 1 and 2: its join and its send were refused
  and it received the two errors only, while user 2 received the message of user 1.\<close>

theorem C6_non_participant_witness:
  "join_conversation (30, 3) 7 srv_after
     = srv_after\<lparr>outbox := outbox srv_after @ [((30, 3), error_event ''Not authorized'')]\<rparr>
   \<and> received (30, 3) srv_after
       = [error_event ''Not authorized'', error_event ''Not authorized'']
   \<and> (\<forall>m. ((30, 3), new_message m 7) \<notin> set (outbox srv_after))
   \<and> (\<exists>m. ((20, 2), new_message m 7) \<in> set (outbox srv_after))
   \<and> ((30, 3), ConversationRoom 7) \<notin> set (rooms srv_after)"
proof -
  have ev: "received (30, 3) srv_after
       = [error_event ''Not authorized'', error_event ''Not authorized'']"
     "\<exists>m. ((20, 2), new_message m 7) \<in> set (outbox srv_after)"
     "\<exists>conv. Conversation_findById 7 (store srv_after) = Some conv \<and> participants conv = [1, 2]"
    by (simp_all add: srv_after_def chat_actions_def db_chat_def received_def socket_defs
        send_defs eval_defs)
  then obtain conv where conv: "Conversation_findById 7 (store srv_after) = Some conv"
    and "participants conv = [1, 2]" by blast
  then have "snd (30 :: nat, 3 :: nat) \<notin> set (participants conv)" by simp
  from C6_non_participant [OF conv this, where str = "[]" and ty = None and tmp = None and now = 0]
  have "join_conversation (30, 3) 7 srv_after
     = srv_after\<lparr>outbox := outbox srv_after @ [((30, 3), error_event ''Not authorized'')]\<rparr>"
    and "\<forall>d0 acts. distinct (map conv_id (conversations d0)) \<and> srv_after = run acts (init_server d0)
          \<longrightarrow> (\<forall>k m. ((k, 3), new_message m 7) \<notin> set (outbox srv_after))
              \<and> (\<forall>k. ((k, 3), ConversationRoom 7) \<notin> set (rooms srv_after))"
    by simp_all
  moreover have "distinct (map conv_id (conversations db_chat))
      \<and> srv_after = run chat_actions (init_server db_chat)"
    by (simp add: srv_after_def db_chat_def)
  ultimately show ?thesis using ev(1,2) by blast
qed

section \<open>Disconnect\<close>

lemma received_append:
  "outbox s' = outbox s @ new \<Longrightarrow> \<forall>e\<in>set new. fst e \<noteq> sock \<Longrightarrow> received sock s' = received sock s"
  by (simp add: received_def filter_empty_conv)

lemma emits_only_gone:
  assumes "emits_only k s s'" and "k \<in> set (sockets s)" and "sock \<notin> set (sockets s)"
  shows "sockets s' = sockets s \<and> rooms s' = rooms s \<and> received sock s' = received sock s"
proof -
  from assms(1) obtain new where f: "sockets s' = sockets s" "rooms s' = rooms s"
      "outbox s' = outbox s @ new" "\<forall>e\<in>set new. fst e \<in> set (sockets s) \<or> fst e = k"
    unfolding emits_only_def by blast
  from f(4) assms(2,3) have "\<forall>e\<in>set new. fst e \<noteq> sock" by auto
  from received_append [OF f(3) this] f(1,2) show ?thesis by simp
qed

text \<open>A connection that is closed and not opened again stays out of every room and
  receives nothing.\<close>

lemma step_gone:
  assumes "sock \<notin> set (sockets s)" and "\<forall>r. (sock, r) \<notin> set (rooms s)" and "a \<noteq> Connect sock"
  shows "sock \<notin> set (sockets (step a s)) \<and> (\<forall>r. (sock, r) \<notin> set (rooms (step a s)))
         \<and> received sock (step a s) = received sock s"
proof (cases a)
  case (Connect k)
  with assms(3) have k: "k \<noteq> sock" by simp
  have "received sock (connect k s) = received sock s"
    using assms(1) by (intro received_append [OF connect_effect(4)]) auto
  with Connect k assms(1,2) show ?thesis
    by (auto simp: connect_effect)
next
  case (JoinConversation k c)
  show ?thesis
  proof (cases "k \<in> set (sockets s)")
    case False
    with JoinConversation assms show ?thesis by simp
  next
    case True
    with assms(1) have k: "k \<noteq> sock" by auto
    have e: "received sock (socket_emit k ev s) = received sock s" for ev
      using k by (intro received_append [where new = "[(k, ev)]"])
        (simp_all add: socket_emit_def deliver_def)
    have "received sock (socket_join k r s) = received sock s" for r
      by (simp add: received_def socket_join_def)
    with e join_conversation_cases [of k c s] JoinConversation True assms(1,2) k show ?thesis
      by (auto simp: socket_emit_def deliver_def socket_join_def)
  qed
next
  case (SendMessage k c str ty tmp now)
  then show ?thesis
    using assms(1,2) send_message_frame [of k s c str ty tmp now]
    by (auto dest: emits_only_gone)
next
  case (MessageRead k m c now)
  then show ?thesis
    using assms(1,2) message_read_frame [of k s m c now]
    by (auto dest: emits_only_gone)
next
  case (TypingStart k c)
  then show ?thesis
    using assms(1,2) typing_start_frame [of k s c]
    by (auto dest: emits_only_gone)
next
  case (TypingStop k c)
  then show ?thesis
    using assms(1,2) typing_stop_frame [of k s c]
    by (auto dest: emits_only_gone)
next
  case (Disconnect k)
  have "received sock (disconnect k s) = received sock s"
    using assms(1) by (intro received_append [OF disconnect_effect(4)]) auto
  with Disconnect assms(1,2) show ?thesis
    by (auto simp: disconnect_effect)
next
  case (HttpCreateConversation u p now)
  with assms(1,2) show ?thesis by (simp add: received_def)
next
  case (HttpMarkAsRead u c now)
  with assms(1,2) show ?thesis by (simp add: received_def)
qed

lemma run_gone:
  assumes "sock \<notin> set (sockets s)" and "\<forall>r. (sock, r) \<notin> set (rooms s)"
    and "Connect sock \<notin> set acts"
  shows "sock \<notin> set (sockets (run acts s)) \<and> (\<forall>r. (sock, r) \<notin> set (rooms (run acts s)))
         \<and> received sock (run acts s) = received sock s"
  using assms
proof (induction acts arbitrary: s)
  case Nil
  then show ?case by (simp add: run_def)
next
  case (Cons a acts)
  from Cons.prems(3) have a: "a \<noteq> Connect sock" and rest: "Connect sock \<notin> set acts" by auto
  from step_gone [OF Cons.prems(1,2) a]
  have 1: "sock \<notin> set (sockets (step a s))" "\<forall>r. (sock, r) \<notin> set (rooms (step a s))"
    and 2: "received sock (step a s) = received sock s" by simp_all
  from Cons.IH [OF 1 rest] 2 show ?case by (simp add: run_def)
qed

text \<open>
  C8. After the disconnect event of a connection, in whatever state the server was (the
  connection may have joined no room and may not be the one registered for its identity):
  the lookup of its identity in the presence map returns nothing; the connection is no
  longer among the sockets and is subscribed to no room (Socket.IO's own cleanup, which
  runs before the handler); an emission to any room right after does not reach it; and
  whatever happens next on the server, short of this same connection opening again, it
  receives no further event and stays out of every room.
\<close>

theorem C8_disconnect:
  "lookup (snd sock) (disconnect sock s) = None
   \<and> sock \<notin> set (sockets (disconnect sock s))
   \<and> (\<forall>r. (sock, r) \<notin> set (rooms (disconnect sock s)))
   \<and> (\<forall>r ev. received sock (io_to_emit r ev (disconnect sock s)) = received sock s)
   \<and> (\<forall>acts. Connect sock \<notin> set acts \<longrightarrow>
         received sock (run acts (disconnect sock s)) = received sock s
         \<and> (\<forall>r. (sock, r) \<notin> set (rooms (run acts (disconnect sock s)))))"
proof (intro conjI)
  show "lookup (snd sock) (disconnect sock s) = None"
    by (simp add: lookup_def disconnect_effect)
  show gone1: "sock \<notin> set (sockets (disconnect sock s))"
    by (simp add: disconnect_effect)
  show gone2: "\<forall>r. (sock, r) \<notin> set (rooms (disconnect sock s))"
    by (simp add: disconnect_effect)
  have same: "received sock (disconnect sock s) = received sock s"
    by (intro received_append [OF disconnect_effect(4)]) auto
  show "\<forall>r ev. received sock (io_to_emit r ev (disconnect sock s)) = received sock s"
  proof (intro allI)
    fix r :: room and ev :: event
    have "\<forall>e\<in>set (map (\<lambda>k. (k, ev)) (members r (disconnect sock s))). fst e \<noteq> sock"
      using gone1 members_connected [of r "disconnect sock s"] by auto
    moreover have "outbox (io_to_emit r ev (disconnect sock s))
        = outbox (disconnect sock s) @ map (\<lambda>k. (k, ev)) (members r (disconnect sock s))"
      by (simp add: io_to_emit_def deliver_def)
    ultimately have "received sock (io_to_emit r ev (disconnect sock s))
        = received sock (disconnect sock s)"
      by (intro received_append)
    with same show "received sock (io_to_emit r ev (disconnect sock s)) = received sock s"
      by simp
  qed
  show "\<forall>acts. Connect sock \<notin> set acts \<longrightarrow>
         received sock (run acts (disconnect sock s)) = received sock s
         \<and> (\<forall>r. (sock, r) \<notin> set (rooms (run acts (disconnect sock s))))"
    using run_gone [OF gone1 gone2] same by simp
qed

text \<open>User 2, online and subscribed to conversation 7, disconnects: the lookup is empty,
  and the later message of user 1 to the conversation does not reach the closed
  connection. A connection that was never registered disconnects from the initial server.\<close>

theorem C8_disconnect_witness:
  "lookup 2 srv_after = Some 20
   \<and> ((20, 2), ConversationRoom 7) \<in> set (rooms srv_after)
   \<and> lookup 2 (disconnect (20, 2) srv_after) = None
   \<and> (\<forall>r. ((20, 2), r) \<notin> set (rooms (disconnect (20, 2) srv_after)))
   \<and> received (20, 2) (run after_disconnect (disconnect (20, 2) srv_after))
       = received (20, 2) srv_after
   \<and> lookup 9 (disconnect (50, 9) (init_server db_empty)) = None"
proof -
  have "lookup 2 srv_after = Some 20" "((20, 2), ConversationRoom 7) \<in> set (rooms srv_after)"
    by (simp_all add: lookup_def srv_after_def chat_actions_def db_chat_def socket_defs
        send_defs eval_defs)
  moreover have "Connect (20, 2) \<notin> set after_disconnect"
    by (simp add: after_disconnect_def)
  ultimately show ?thesis
    using C8_disconnect [of "(20, 2)" srv_after] C8_disconnect [of "(50, 9)" "init_server db_empty"]
    by simp
qed

section \<open>Idempotence of the read and delivery marks\<close>

lemma isReadBy_after_mark: "isReadBy (fst (Message_markAsRead u t m d)) u"
  by (simp add: Message_markAsRead_def isReadBy_def)

lemma isDeliveredTo_after_mark: "isDeliveredTo (fst (Message_markAsDelivered u t m d)) u"
  by (simp add: Message_markAsDelivered_def isDeliveredTo_def)

lemma markAsRead_stored:
  assumes "Message_findById (msg_id m) d = Some m"
  shows "Message_findById (msg_id m) (snd (Message_markAsRead u t m d))
           = Some (fst (Message_markAsRead u t m d))"
proof (cases "isReadBy m u")
  case True
  with assms show ?thesis by (simp add: Message_markAsRead_def)
next
  case False
  have "find (\<lambda>x. msg_id x = msg_id m)
          (updateOne (\<lambda>x. msg_id x = msg_id m) (\<lambda>x. x\<lparr>readBy := readBy x @ [(u, t)]\<rparr>) (messages d))
        = Some (m\<lparr>readBy := readBy m @ [(u, t)]\<rparr>)"
    using assms unfolding Message_findById_def by (rule find_updateOne) simp
  with False show ?thesis
    by (simp add: Message_markAsRead_def Message_findById_def Message_save_def
        Message_postSave_def Conversation_findByIdAndUpdate_def)
qed

lemma markAsDelivered_stored:
  assumes "Message_findById (msg_id m) d = Some m"
  shows "Message_findById (msg_id m) (snd (Message_markAsDelivered u t m d))
           = Some (fst (Message_markAsDelivered u t m d))"
proof (cases "isDeliveredTo m u")
  case True
  with assms show ?thesis by (simp add: Message_markAsDelivered_def)
next
  case False
  have "find (\<lambda>x. msg_id x = msg_id m)
          (updateOne (\<lambda>x. msg_id x = msg_id m) (\<lambda>x. x\<lparr>deliveredTo := deliveredTo x @ [(u, t)]\<rparr>)
             (messages d))
        = Some (m\<lparr>deliveredTo := deliveredTo m @ [(u, t)]\<rparr>)"
    using assms unfolding Message_findById_def by (rule find_updateOne) simp
  with False show ?thesis
    by (simp add: Message_markAsDelivered_def Message_findById_def Message_save_def
        Message_postSave_def Conversation_findByIdAndUpdate_def)
qed

text \<open>
  C4. markAsRead and markAsDelivered are idempotent: a second call with the same message
  and user, at any later time, returns the document and the store of the first call
  unchanged, so the record of the first call keeps its timestamp and no second record is
  added. And the record the first call returns is the one it stored: when the document is
  the stored message of its id, the stored message after the call is the document
  returned, so a second call on the message loaded again is the same no-op.
\<close>

theorem C4_marks_idempotent:
  "Message_markAsRead u t2 (fst (Message_markAsRead u t1 m d)) (snd (Message_markAsRead u t1 m d))
     = Message_markAsRead u t1 m d
   \<and> Message_markAsDelivered u t2 (fst (Message_markAsDelivered u t1 m d))
        (snd (Message_markAsDelivered u t1 m d))
     = Message_markAsDelivered u t1 m d
   \<and> (Message_findById (msg_id m) d = Some m \<longrightarrow>
        Message_findById (msg_id m) (snd (Message_markAsRead u t1 m d))
          = Some (fst (Message_markAsRead u t1 m d))
        \<and> Message_findById (msg_id m) (snd (Message_markAsDelivered u t1 m d))
          = Some (fst (Message_markAsDelivered u t1 m d)))"
proof (intro conjI impI)
  have "isReadBy (fst (Message_markAsRead u t1 m d)) u"
    by (rule isReadBy_after_mark)
  then show "Message_markAsRead u t2 (fst (Message_markAsRead u t1 m d))
      (snd (Message_markAsRead u t1 m d)) = Message_markAsRead u t1 m d"
    by (subst Message_markAsRead_def) simp
next
  have "isDeliveredTo (fst (Message_markAsDelivered u t1 m d)) u"
    by (rule isDeliveredTo_after_mark)
  then show "Message_markAsDelivered u t2 (fst (Message_markAsDelivered u t1 m d))
      (snd (Message_markAsDelivered u t1 m d)) = Message_markAsDelivered u t1 m d"
    by (subst Message_markAsDelivered_def) simp
next
  assume "Message_findById (msg_id m) d = Some m"
  then show "Message_findById (msg_id m) (snd (Message_markAsRead u t1 m d))
          = Some (fst (Message_markAsRead u t1 m d))"
    by (rule markAsRead_stored)
next
  assume "Message_findById (msg_id m) d = Some m"
  then show "Message_findById (msg_id m) (snd (Message_markAsDelivered u t1 m d))
          = Some (fst (Message_markAsDelivered u t1 m d))"
    by (rule markAsDelivered_stored)
qed

text \<open>User 1 marks message 12 read at time 60 and again at time 70: the stored record
  stays (1, 60).\<close>

theorem C4_marks_idempotent_witness:
  "map_option readBy (Message_findById 12 (snd (Message_markAsRead 1 60 (msg 12 7 2 20 False) db_history)))
     = Some [(1, 60)]
   \<and> Message_markAsRead 1 70 (fst (Message_markAsRead 1 60 (msg 12 7 2 20 False) db_history))
        (snd (Message_markAsRead 1 60 (msg 12 7 2 20 False) db_history))
     = Message_markAsRead 1 60 (msg 12 7 2 20 False) db_history
   \<and> map_option deliveredTo
        (Message_findById 12 (snd (Message_markAsDelivered 1 60 (msg 12 7 2 20 False) db_history)))
     = Some [(1, 60)]"
  using C4_marks_idempotent [where m = "msg 12 7 2 20 False" and d = db_history and u = 1
      and ?t1.0 = 60 and ?t2.0 = 70]
  by (simp add: eval_defs Message_markAsDelivered_def isDeliveredTo_def)

section \<open>Marks by an identity that is not a recipient\<close>

text \<open>
  C5 (as stated) fails: markAsRead and markAsDelivered test only whether the identity
  already has a record. User 9 is no participant of conversation 7, yet marking message 11
  of that conversation read (or delivered) for user 9 adds a record for 9, and the
  message_read event of a socket of user 9 writes that record into the store.
\<close>

theorem C5_counterexample:
  "\<not> valid_recipient db_history (msg 11 7 1 10 False) 9
   \<and> readBy (fst (Message_markAsRead 9 60 (msg 11 7 1 10 False) db_history)) = [(9, 60)]
   \<and> deliveredTo (fst (Message_markAsDelivered 9 60 (msg 11 7 1 10 False) db_history)) = [(9, 60)]
   \<and> map_option readBy
        (Message_findById 11 (store (message_read (5, 9) 11 7 60 (init_server db_history))))
       = Some [(9, 60)]"
  by (simp add: valid_recipient_def Conversation_findById_def Message_findById_def db_history_def
      msg_def Message_markAsRead_def Message_markAsDelivered_def isReadBy_def isDeliveredTo_def
      message_read_def init_server_def Message_save_def Message_postSave_def
      Conversation_findByIdAndUpdate_def)

lemma message_read_found:
  assumes "Message_findById mid (store s) = Some m"
  shows "store (message_read sock mid cid now s) = snd (Message_markAsRead (snd sock) now m (store s))"
    and "\<exists>ks. outbox (message_read sock mid cid now s)
            = outbox s @ map (\<lambda>k. (k, message_read_receipt mid cid (snd sock) now)) ks"
proof -
  show "store (message_read sock mid cid now s) = snd (Message_markAsRead (snd sock) now m (store s))"
    using assms by (simp add: message_read_alt split: option.splits)
  show "\<exists>ks. outbox (message_read sock mid cid now s)
            = outbox s @ map (\<lambda>k. (k, message_read_receipt mid cid (snd sock) now)) ks"
  proof (cases "onlineUsers s (sender (fst (Message_markAsRead (snd sock) now m (store s))))")
    case None
    with assms have "outbox (message_read sock mid cid now s)
        = outbox s @ map (\<lambda>k. (k, message_read_receipt mid cid (snd sock) now)) []"
      by (simp add: message_read_alt)
    then show ?thesis by blast
  next
    case (Some k)
    with assms have "outbox (message_read sock mid cid now s)
        = outbox s @ map (\<lambda>k. (k, message_read_receipt mid cid (snd sock) now))
            (members (SocketRoom k)
               (s\<lparr>store := snd (Message_markAsRead (snd sock) now m (store s))\<rparr>))"
      by (simp add: message_read_alt io_to_emit_def deliver_def)
    then show ?thesis by blast
  qed
qed

text \<open>
  C5 (amended). For every message and every identity, a valid recipient of the message or
  not, markAsRead and markAsDelivered return the document (they have no error outcome):
  markAsRead appends one read record for the identity when it has none and leaves the
  delivery records unchanged, markAsDelivered appends one delivery record when it has
  none and leaves the read records unchanged, and when the identity already has the
  record the call changes neither the document nor the store. The message_read event of
  any connection on a stored message writes exactly what markAsRead writes for the
  identity of the connection, and emits nothing but read receipts: no error is signalled.
\<close>

theorem C5_marks_any_identity:
  "readBy (fst (Message_markAsRead u t m d))
       = (if isReadBy m u then readBy m else readBy m @ [(u, t)])
   \<and> deliveredTo (fst (Message_markAsRead u t m d)) = deliveredTo m
   \<and> deliveredTo (fst (Message_markAsDelivered u t m d))
       = (if isDeliveredTo m u then deliveredTo m else deliveredTo m @ [(u, t)])
   \<and> readBy (fst (Message_markAsDelivered u t m d)) = readBy m
   \<and> (isReadBy m u \<longrightarrow> snd (Message_markAsRead u t m d) = d)
   \<and> (isDeliveredTo m u \<longrightarrow> snd (Message_markAsDelivered u t m d) = d)
   \<and> (Message_findById mid (store s) = Some m \<longrightarrow>
        store (message_read sock mid cid t s) = snd (Message_markAsRead (snd sock) t m (store s))
        \<and> (\<exists>ks. outbox (message_read sock mid cid t s)
               = outbox s @ map (\<lambda>k. (k, message_read_receipt mid cid (snd sock) t)) ks))"
  using message_read_found [of mid s m sock cid t]
  by (simp add: Message_markAsRead_def Message_markAsDelivered_def)

text \<open>The sender of message 11 (not a valid recipient of it) marks it read: a record is
  added, the delivery records stay empty, and a second call changes nothing. User 3, no
  participant of conversation 7, sends message_read for its message 1: the record (3, 300)
  is stored and user 3 receives nothing, no error either.\<close>

theorem C5_marks_any_identity_witness:
  "\<not> valid_recipient db_history (msg 11 7 1 10 False) 1
   \<and> readBy (fst (Message_markAsRead 1 60 (msg 11 7 1 10 False) db_history)) = [(1, 60)]
   \<and> deliveredTo (fst (Message_markAsRead 1 60 (msg 11 7 1 10 False) db_history)) = []
   \<and> snd (Message_markAsRead 1 70 (fst (Message_markAsRead 1 60 (msg 11 7 1 10 False) db_history))
           db_history) = db_history
   \<and> \<not> valid_recipient db_chat (msg 1 7 1 100 False) 3
   \<and> received (30, 3) (message_read (30, 3) 1 7 300 srv_after) = received (30, 3) srv_after
   \<and> map_option readBy (Message_findById 1 (store (message_read (30, 3) 1 7 300 srv_after)))
       = Some [(3, 300)]"
proof -
  have m: "Message_findById 1 (store srv_after)
      = Some ((msg 1 7 1 100 False)\<lparr>content := ''Hello'', deliveredTo := [(2, 100)]\<rparr>)"
    by (simp add: Message_findById_def srv_after_def chat_actions_def db_chat_def socket_defs
        send_defs eval_defs)
  from C5_marks_any_identity [where u = 3 and t = 300 and s = srv_after and mid = 1 and cid = 7
      and sock = "(30, 3)"
      and m = "(msg 1 7 1 100 False)\<lparr>content := ''Hello'', deliveredTo := [(2, 100)]\<rparr>"] m
  obtain ks where st: "store (message_read (30, 3) 1 7 300 srv_after)
        = snd (Message_markAsRead 3 300
            ((msg 1 7 1 100 False)\<lparr>content := ''Hello'', deliveredTo := [(2, 100)]\<rparr>)
            (store srv_after))"
    and ob: "outbox (message_read (30, 3) 1 7 300 srv_after)
        = outbox srv_after @ map (\<lambda>k. (k, message_read_receipt 1 7 3 300)) ks"
    by auto
  have "map_option readBy (Message_findById 1 (store (message_read (30, 3) 1 7 300 srv_after)))
       = Some [(3, 300)]"
    unfolding st using markAsRead_stored [OF _, of "(msg 1 7 1 100 False)\<lparr>content := ''Hello'', deliveredTo := [(2, 100)]\<rparr>" "store srv_after" 3 300] m
    by (simp add: msg_def Message_markAsRead_def isReadBy_def)
  moreover have "received (30, 3) (message_read (30, 3) 1 7 300 srv_after) = received (30, 3) srv_after"
    by (simp add: message_read_alt m srv_after_def chat_actions_def db_chat_def socket_defs
        send_defs eval_defs received_def)
  ultimately show ?thesis
  using C5_marks_any_identity [where u = 1 and t = 60 and m = "msg 11 7 1 10 False" and d = db_history]
    C5_marks_any_identity [where u = 1 and t = 70
      and m = "fst (Message_markAsRead 1 60 (msg 11 7 1 10 False) db_history)" and d = db_history]
  by (simp add: valid_recipient_def Conversation_findById_def db_history_def db_chat_def msg_def isReadBy_def
      Message_markAsRead_def)
qed

end
